theory Spec2Isabelle
  imports Main
begin

section \<open>Strings and numbers of the Go runtime\<close>

text \<open>
  Go strings are byte sequences; they are modelled as \<open>string\<close> (a list of 8-bit
  characters). Go's \<open>int\<close> is modelled as \<open>int\<close>: the functions below only compare,
  parse and print version numbers and do index arithmetic on line numbers; the range of
  the 64-bit \<open>int\<close> matters in \<open>Atoi\<close> only, where it is written out.
\<close>

text \<open>Go's \<open>a < b\<close> on strings: bytewise lexicographic order.\<close>

fun strLess :: "string \<Rightarrow> string \<Rightarrow> bool" where
  "strLess [] [] = False"
| "strLess [] (y # ys) = True"
| "strLess (x # xs) [] = False"
| "strLess (x # xs) (y # ys) =
     ((of_char x :: int) < of_char y \<or> (x = y \<and> strLess xs ys))"

definition isDigit :: "char \<Rightarrow> bool" where
  "isDigit c = (48 \<le> (of_char c :: int) \<and> (of_char c :: int) \<le> 57)"

definition isWord :: "char \<Rightarrow> bool" where
  "isWord c =
     (let n = (of_char c :: int)
      in (48 \<le> n \<and> n \<le> 57) \<or> (65 \<le> n \<and> n \<le> 90) \<or> n = 95 \<or> (97 \<le> n \<and> n \<le> 122))"

subsection \<open>strconv.Atoi and the verb \<open>%d\<close>\<close>

datatype NumError = ErrSyntax | ErrRange

definition digitVal :: "char \<Rightarrow> int" where
  "digitVal c = of_char c - 48"

definition digitsVal :: "string \<Rightarrow> int" where
  "digitsVal ds = fold (\<lambda>c n. 10 * n + digitVal c) ds 0"

text \<open>
  \<open>Atoi\<close>: an optional sign, then decimal digits; a syntax error on anything else, a
  range error when the value does not fit the 64-bit \<open>int\<close>.
\<close>

definition Atoi :: "string \<Rightarrow> NumError + int" where
  "Atoi s =
     (let neg = (s \<noteq> [] \<and> hd s = CHR ''-'');
          ds = (if s \<noteq> [] \<and> (hd s = CHR ''-'' \<or> hd s = CHR ''+'') then tl s else s)
      in if ds = [] \<or> \<not> list_all isDigit ds then Inl ErrSyntax
         else if neg then
           (if digitsVal ds > 9223372036854775808 then Inl ErrRange
            else Inr (- digitsVal ds))
         else
           (if digitsVal ds > 9223372036854775807 then Inl ErrRange
            else Inr (digitsVal ds)))"

definition digitChar :: "nat \<Rightarrow> char" where
  "digitChar d = ''0123456789'' ! d"

text \<open>The decimal digits of a number that is not negative.\<close>

function digits :: "int \<Rightarrow> string" where
  "digits n =
     (if n < 10 then [digitChar (nat n)]
      else digits (n div 10) @ [digitChar (nat (n mod 10))])"
  by pat_completeness auto
termination
  by (relation "measure nat") auto

declare digits.simps [simp del]

text \<open>\<open>fmt.Sprintf("%d", n)\<close>.\<close>

definition itoa :: "int \<Rightarrow> string" where
  "itoa n = (if n < 0 then CHR ''-'' # digits (- n) else digits n)"

subsection \<open>strings.Split, strings.Join, strings.TrimSpace\<close>

text \<open>\<open>strings.Split(s, sep)\<close> for a separator of one byte, as in \<open>Split(body, "\n")\<close>.\<close>

fun Split :: "string \<Rightarrow> char \<Rightarrow> string list" where
  "Split [] sep = [[]]"
| "Split (c # cs) sep =
     (if c = sep then [] # Split cs sep
      else (case Split cs sep of l # ls \<Rightarrow> (c # l) # ls | [] \<Rightarrow> [[c]]))"

fun Join :: "string list \<Rightarrow> string \<Rightarrow> string" where
  "Join [] sep = []"
| "Join [l] sep = l"
| "Join (l # ls) sep = l @ sep @ Join ls sep"

text \<open>
  The white space of \<open>unicode.IsSpace\<close>, in UTF-8: tab, line feed, vertical tab, form
  feed, carriage return, space, U+0085, U+00A0, U+1680, U+2000 to U+200A, U+2028, U+2029,
  U+202F, U+205F and U+3000.
\<close>

definition spaceRunes :: "string list" where
  "spaceRunes =
     [[CHR 0x09], [CHR 0x0A], [CHR 0x0B], [CHR 0x0C], [CHR 0x0D], [CHR 0x20],
      [CHR 0xC2, CHR 0x85], [CHR 0xC2, CHR 0xA0], [CHR 0xE1, CHR 0x9A, CHR 0x80],
      [CHR 0xE2, CHR 0x80, CHR 0x80], [CHR 0xE2, CHR 0x80, CHR 0x81],
      [CHR 0xE2, CHR 0x80, CHR 0x82], [CHR 0xE2, CHR 0x80, CHR 0x83],
      [CHR 0xE2, CHR 0x80, CHR 0x84], [CHR 0xE2, CHR 0x80, CHR 0x85],
      [CHR 0xE2, CHR 0x80, CHR 0x86], [CHR 0xE2, CHR 0x80, CHR 0x87],
      [CHR 0xE2, CHR 0x80, CHR 0x88], [CHR 0xE2, CHR 0x80, CHR 0x89],
      [CHR 0xE2, CHR 0x80, CHR 0x8A], [CHR 0xE2, CHR 0x80, CHR 0xA8],
      [CHR 0xE2, CHR 0x80, CHR 0xA9], [CHR 0xE2, CHR 0x80, CHR 0xAF],
      [CHR 0xE2, CHR 0x81, CHR 0x9F], [CHR 0xE3, CHR 0x80, CHR 0x80]]"

definition leadingSpace :: "string \<Rightarrow> nat option" where
  "leadingSpace s =
     map_option length (find (\<lambda>r. take (length r) s = r) spaceRunes)"

fun trimLeft :: "nat \<Rightarrow> string \<Rightarrow> string" where
  "trimLeft 0 s = s"
| "trimLeft (Suc fuel) s =
     (case leadingSpace s of None \<Rightarrow> s | Some k \<Rightarrow> trimLeft fuel (drop k s))"

definition trailingSpace :: "string \<Rightarrow> nat option" where
  "trailingSpace s =
     map_option length
       (find (\<lambda>r. length r \<le> length s \<and> drop (length s - length r) s = r) spaceRunes)"

fun trimRight :: "nat \<Rightarrow> string \<Rightarrow> string" where
  "trimRight 0 s = s"
| "trimRight (Suc fuel) s =
     (case trailingSpace s of None \<Rightarrow> s | Some k \<Rightarrow> trimRight fuel (take (length s - k) s))"

text \<open>
  Each round removes at least one byte, so \<open>length s\<close> rounds reach the fixed point
  (lemmas \<open>trimLeft_done\<close> and \<open>trimRight_done\<close>).
\<close>

definition TrimSpace :: "string \<Rightarrow> string" where
  "TrimSpace s = (let l = trimLeft (length s) s in trimRight (length l) l)"

section \<open>Package regexp: leftmost-first matching with submatches\<close>

text \<open>
  The three expressions of the program use character classes, literals, greedy \<open>*\<close>,
  \<open>+\<close> and \<open>?\<close>, alternation and groups, and are anchored at both ends. The matcher
  returns every way to match a prefix of the text, in the order in which a backtracking
  search finds them, each with the groups captured on the way and the rest of the text;
  Go's regexp returns the match a backtracking search finds first.
\<close>

datatype cclass = Word | Digit | Lit char

fun inClass :: "cclass \<Rightarrow> char \<Rightarrow> bool" where
  "inClass Word c = isWord c"
| "inClass Digit c = isDigit c"
| "inClass (Lit x) c = (c = x)"

datatype regex =
    One cclass
  | Many cclass
  | Seq regex regex
  | Alt regex regex
  | Opt regex
  | Group nat regex

type_synonym caps = "(nat \<times> string) list"

text \<open>The rests after the greedy \<open>k*\<close>: the longest run first.\<close>

fun splits :: "cclass \<Rightarrow> string \<Rightarrow> string list" where
  "splits k [] = [[]]"
| "splits k (x # xs) = (if inClass k x then splits k xs @ [x # xs] else [x # xs])"

fun rmatch :: "regex \<Rightarrow> string \<Rightarrow> (caps \<times> string) list" where
  "rmatch (One k) s =
     (case s of [] \<Rightarrow> [] | x # xs \<Rightarrow> if inClass k x then [([], xs)] else [])"
| "rmatch (Many k) s = map (Pair []) (splits k s)"
| "rmatch (Seq a b) s =
     concat (map (\<lambda>(u, t). map (\<lambda>(u', t'). (u @ u', t')) (rmatch b t)) (rmatch a s))"
| "rmatch (Alt a b) s = rmatch a s @ rmatch b s"
| "rmatch (Opt a) s = rmatch a s @ [([], s)]"
| "rmatch (Group i a) s =
     map (\<lambda>(u, t). ((i, take (length s - length t) s) # u, t)) (rmatch a s)"

text \<open>A group that took no part in the match is the empty string in Go's result.\<close>

definition submatch :: "caps \<Rightarrow> nat \<Rightarrow> string" where
  "submatch u i = (case map_of u i of None \<Rightarrow> [] | Some g \<Rightarrow> g)"

text \<open>
  \<open>FindStringSubmatch\<close> for an expression \<open>^re$\<close> with \<open>n\<close> groups: \<open>None\<close> stands for the
  empty result (\<open>len(m) == 0\<close>), otherwise \<open>m[0]\<close> is the text and \<open>m[i]\<close> the group \<open>i\<close>.
\<close>

definition FindStringSubmatch :: "regex \<Rightarrow> nat \<Rightarrow> string \<Rightarrow> string list option" where
  "FindStringSubmatch re n s =
     (case find (\<lambda>(u, t). t = []) (rmatch re s) of
        None \<Rightarrow> None
      | Some (u, t) \<Rightarrow> Some (s # map (submatch u) [1..<Suc n]))"

definition plus :: "cclass \<Rightarrow> regex" where
  "plus k = Seq (One k) (Many k)"

definition lit :: "char \<Rightarrow> regex" where
  "lit c = One (Lit c)"

section \<open>Package semver\<close>

record Style =
  Prefix :: string
  OmitPatch :: bool

text \<open>\<open>^(?:\w*-|v)?(\d+)\.(\d+)(?:\.(\d+))?(-\w+)?$\<close>\<close>

definition versionRE :: regex where
  "versionRE =
     Seq (Opt (Alt (Seq (Many Word) (lit CHR ''-'')) (lit CHR ''v'')))
    (Seq (Group 1 (plus Digit))
    (Seq (lit CHR ''.'')
    (Seq (Group 2 (plus Digit))
    (Seq (Opt (Seq (lit CHR ''.'') (Group 3 (plus Digit))))
         (Opt (Group 4 (Seq (lit CHR ''-'') (plus Word))))))))"

text \<open>\<open>^(\w*-|v)?(\d+)\.(\d+)(?:\.(\d+))?(-\w+)?$\<close>\<close>

definition styleRE :: regex where
  "styleRE =
     Seq (Opt (Group 1 (Alt (Seq (Many Word) (lit CHR ''-'')) (lit CHR ''v''))))
    (Seq (Group 2 (plus Digit))
    (Seq (lit CHR ''.'')
    (Seq (Group 3 (plus Digit))
    (Seq (Opt (Seq (lit CHR ''.'') (Group 4 (plus Digit))))
         (Opt (Group 5 (Seq (lit CHR ''-'') (plus Word))))))))"

definition ParseStyle :: "string \<Rightarrow> Style option" where
  "ParseStyle s =
     (case FindStringSubmatch styleRE 5 s of
        None \<Rightarrow> None
      | Some m \<Rightarrow> Some \<lparr>Prefix = m ! 1, OmitPatch = (m ! 4 = [])\<rparr>)"

record Version =
  Major :: int
  Minor :: int
  Patch :: int
  Flavor :: string

definition Format :: "Style \<Rightarrow> Version \<Rightarrow> string" where
  "Format s v =
     (let out = Prefix s @ itoa (Major v) @ ''.'' @ itoa (Minor v);
          out = (if Patch v \<noteq> 0 \<or> \<not> OmitPatch s then out @ ''.'' @ itoa (Patch v) else out);
          out = (if Flavor v \<noteq> [] then out @ ''-'' @ Flavor v else out)
      in out)"

definition Merge :: "Style \<Rightarrow> Style \<Rightarrow> Style option" where
  "Merge a b =
     (if Prefix a \<noteq> Prefix b then None
      else Some \<lparr>Prefix = Prefix a, OmitPatch = (OmitPatch a \<or> OmitPatch b)\<rparr>)"

datatype ParseError =
    CannotParse string
  | FailedMajor string
  | FailedMinor string
  | FailedPatch string

definition Parse :: "string \<Rightarrow> ParseError + Version" where
  "Parse s =
     (case FindStringSubmatch versionRE 4 s of
        None \<Rightarrow> Inl (CannotParse s)
      | Some m \<Rightarrow>
          (case Atoi (m ! 1) of
             Inl e \<Rightarrow> Inl (FailedMajor (m ! 1))
           | Inr major \<Rightarrow>
               (case Atoi (m ! 2) of
                  Inl e \<Rightarrow> Inl (FailedMinor (m ! 2))
                | Inr minor \<Rightarrow>
                    (let flavor = (if length (m ! 4) > 0 then tl (m ! 4) else [])
                     in if m ! 3 \<noteq> [] then
                          (case Atoi (m ! 3) of
                             Inl e \<Rightarrow> Inl (FailedPatch (m ! 3))
                           | Inr patch \<Rightarrow>
                               Inr \<lparr>Major = major, Minor = minor, Patch = patch, Flavor = flavor\<rparr>)
                        else Inr \<lparr>Major = major, Minor = minor, Patch = 0, Flavor = flavor\<rparr>))))"

text \<open>
  A decimal numeral without superfluous leading zeros, and a version string whose
  numbers (the groups 2, 3 and 4 of \<open>styleRE\<close>) are such numerals.
\<close>

definition canonical :: "string \<Rightarrow> bool" where
  "canonical d = (d = ''0'' \<or> (d \<noteq> [] \<and> hd d \<noteq> CHR ''0''))"

definition canonicalNumbers :: "string \<Rightarrow> bool" where
  "canonicalNumbers s =
     (case FindStringSubmatch styleRE 5 s of
        None \<Rightarrow> False
      | Some m \<Rightarrow> canonical (m ! 2) \<and> canonical (m ! 3) \<and> (m ! 4 = [] \<or> canonical (m ! 4)))"

text \<open>
  Two operations on expressions, used to compare \<open>versionRE\<close> with \<open>styleRE\<close>: removing the
  parentheses of the group \<open>i\<close>, and renumbering the groups.
\<close>

fun ungroup :: "nat \<Rightarrow> regex \<Rightarrow> regex" where
  "ungroup i (One k) = One k"
| "ungroup i (Many k) = Many k"
| "ungroup i (Seq a b) = Seq (ungroup i a) (ungroup i b)"
| "ungroup i (Alt a b) = Alt (ungroup i a) (ungroup i b)"
| "ungroup i (Opt a) = Opt (ungroup i a)"
| "ungroup i (Group j a) = (if j = i then ungroup i a else Group j (ungroup i a))"

fun regroup :: "(nat \<Rightarrow> nat) \<Rightarrow> regex \<Rightarrow> regex" where
  "regroup f (One k) = One k"
| "regroup f (Many k) = Many k"
| "regroup f (Seq a b) = Seq (regroup f a) (regroup f b)"
| "regroup f (Alt a b) = Alt (regroup f a) (regroup f b)"
| "regroup f (Opt a) = Opt (regroup f a)"
| "regroup f (Group j a) = Group (f j) (regroup f a)"

text \<open>\<open>Compare\<close>: the cases of the two \<open>switch\<close> statements in the order of the source.\<close>

definition Compare :: "Version \<Rightarrow> Version \<Rightarrow> bool \<Rightarrow> int" where
  "Compare a b compareFlavor =
     (if Major a < Major b then -1
      else if Major a > Major b then 1
      else if Minor a < Minor b then -1
      else if Minor a > Minor b then 1
      else if Patch a < Patch b then -1
      else if Patch a > Patch b then 1
      else if compareFlavor then
        (if Flavor a = [] \<and> Flavor b \<noteq> [] then -1
         else if Flavor a \<noteq> [] \<and> Flavor b = [] then 1
         else if strLess (Flavor a) (Flavor b) then -1
         else if strLess (Flavor b) (Flavor a) then 1
         else 0)
      else 0)"

definition GreaterThan :: "Version \<Rightarrow> Version \<Rightarrow> bool \<Rightarrow> bool" where
  "GreaterThan v o' compareFlavor = (Compare v o' compareFlavor > 0)"

definition GreaterEqualTo :: "Version \<Rightarrow> Version \<Rightarrow> bool \<Rightarrow> bool" where
  "GreaterEqualTo v o' compareFlavor = (Compare v o' compareFlavor \<ge> 0)"

text \<open>
  \<open>List.Sort\<close> is \<open>sort.Slice\<close> with \<open>less i j = Compare(l[i], l[j], true) > 0\<close>.
  \<open>sort.Slice\<close> is not stable, but \<open>Compare(a, b, true) = 0\<close> holds for identical
  versions only (lemma \<open>Compare_flavor_zero_iff\<close>), so the sorted slice is determined;
  it is computed here by insertion.
\<close>

fun insertVersion :: "Version \<Rightarrow> Version list \<Rightarrow> Version list" where
  "insertVersion v [] = [v]"
| "insertVersion v (x # xs) =
     (if Compare v x True > 0 then v # x # xs else x # insertVersion v xs)"

definition List_Sort :: "Version list \<Rightarrow> Version list" where
  "List_Sort l = foldr insertVersion l []"

text \<open>
  \<open>type Set map[Version]struct{}\<close>: only the keys carry information. A set is modelled
  by the list of its keys, without repetition; the order of the list stands for the
  (unspecified) enumeration order of \<open>range\<close>.
\<close>

type_synonym Set = "Version list"

definition Set_Contains :: "Set \<Rightarrow> Version \<Rightarrow> bool" where
  "Set_Contains s v = (v \<in> set s)"

definition Set_Add :: "Set \<Rightarrow> Version \<Rightarrow> Set" where
  "Set_Add s v = (if v \<in> set s then s else s @ [v])"

definition Set_Remove :: "Set \<Rightarrow> Version \<Rightarrow> Set" where
  "Set_Remove s v = removeAll v s"

definition List_Set :: "Version list \<Rightarrow> Set" where
  "List_Set l = fold (\<lambda>v set'. Set_Add set' v) l []"

text \<open>\<open>Union\<close>: \<open>for v := range o { if s.Contains(v) { out.Add(v) } }\<close>.\<close>

definition Set_Union :: "Set \<Rightarrow> Set \<Rightarrow> Set" where
  "Set_Union s o' = fold (\<lambda>v out. if Set_Contains s v then Set_Add out v else out) o' []"

definition Set_Clone :: "Set \<Rightarrow> Set" where
  "Set_Clone s = fold (\<lambda>v out. Set_Add out v) s []"

definition Set_List :: "Set \<Rightarrow> Version list" where
  "Set_List s = List_Sort (fold (\<lambda>v list. list @ [v]) s [])"

section \<open>Package changes\<close>

text \<open>
  \<open>version\<close> embeds \<open>semver.Version\<close> (field \<open>Version\<close>); \<open>line\<close> is the 1-based number
  of the heading's line.
\<close>

record version =
  Version :: Version
  line :: int
  prefix :: string
  style :: Style
  sep :: string
  date :: string

record Content =
  versions :: "version list"
  lines :: "string list"

text \<open>
  \<open>^(#* *)((?:\w*-|v)?\d+\.\d+(?:\.\d+)?(?:-\w+)?)( *)(\d\d\d\d-\d\d-\d\d)? *$\<close>
\<close>

definition changesVersionRE :: regex where
  "changesVersionRE =
     Seq (Group 1 (Seq (Many (Lit CHR ''#'')) (Many (Lit CHR '' ''))))
    (Seq (Group 2
       (Seq (Opt (Alt (Seq (Many Word) (lit CHR ''-'')) (lit CHR ''v'')))
       (Seq (plus Digit)
       (Seq (lit CHR ''.'')
       (Seq (plus Digit)
       (Seq (Opt (Seq (lit CHR ''.'') (plus Digit)))
            (Opt (Seq (lit CHR ''-'') (plus Word)))))))))
    (Seq (Group 3 (Many (Lit CHR '' '')))
    (Seq (Opt (Group 4
       (Seq (One Digit) (Seq (One Digit) (Seq (One Digit) (Seq (One Digit)
       (Seq (lit CHR ''-'') (Seq (One Digit) (Seq (One Digit)
       (Seq (lit CHR ''-'') (Seq (One Digit) (One Digit))))))))))))
         (Many (Lit CHR '' '')))))"

text \<open>\<open>fmt.Errorf("%v on line %v", err, i)\<close>, with the 0-based index \<open>i\<close> of the line.\<close>

datatype ReadError = OnLine ParseError int

text \<open>
  The body of the loop of \<open>Content.parse\<close> for the line \<open>l\<close> at index \<open>i\<close>: the entries
  \<open>vs\<close> found so far grow by one at a heading, and the loop stops at an error.
\<close>

definition parseLine :: "nat \<Rightarrow> string \<Rightarrow> version list \<Rightarrow> ReadError + version list" where
  "parseLine i l vs =
     (case FindStringSubmatch changesVersionRE 4 l of
        None \<Rightarrow> Inr vs
      | Some m \<Rightarrow>
          (case Parse (m ! 2) of
             Inl err \<Rightarrow> Inl (OnLine err (int i))
           | Inr ver \<Rightarrow>
               Inr (vs @ [\<lparr>Version = ver, line = int i + 1, prefix = m ! 1,
                            style = (case ParseStyle (m ! 2) of
                                       Some s \<Rightarrow> s
                                     | None \<Rightarrow> \<lparr>Prefix = [], OmitPatch = False\<rparr>),
                            sep = m ! 3, date = m ! 4\<rparr>])))"

fun parseLines :: "nat \<Rightarrow> string list \<Rightarrow> version list \<Rightarrow> ReadError + version list" where
  "parseLines i [] vs = Inr vs"
| "parseLines i (l # ls) vs =
     (case parseLine i l vs of
        Inl err \<Rightarrow> Inl err
      | Inr vs' \<Rightarrow> parseLines (Suc i) ls vs')"

definition parse :: "Content \<Rightarrow> ReadError + Content" where
  "parse c =
     (case parseLines 0 (lines c) (versions c) of
        Inl err \<Rightarrow> Inl err
      | Inr vs \<Rightarrow> Inr (c\<lparr>versions := vs\<rparr>))"

definition Read :: "string \<Rightarrow> ReadError + Content" where
  "Read body = parse \<lparr>versions = [], lines = Split body CHR 0x0A\<rparr>"

definition String :: "Content \<Rightarrow> string" where
  "String c = Join (lines c) [CHR 0x0A]"

text \<open>
  Run-time panics are results: an index or a slice bound out of range. A slice
  expression \<open>xs[a:b]\<close> needs \<open>0 \<le> a \<le> b \<le> cap(xs)\<close>; the capacity of the lines that
  \<open>strings.Split\<close> returns is their length.
\<close>

datatype panic = IndexOutOfRange | SliceBoundsOutOfRange

definition slice :: "'a list \<Rightarrow> int \<Rightarrow> int \<Rightarrow> panic + 'a list" where
  "slice xs a b =
     (if 0 \<le> a \<and> a \<le> b \<and> b \<le> int (length xs)
      then Inr (take (nat (b - a)) (drop (nat a) xs))
      else Inl SliceBoundsOutOfRange)"

text \<open>
  The first loop of \<open>ReleaseNotes\<close>: \<open>startLine\<close> is the state, \<open>endLine\<close> stays \<open>-1\<close> until
  the \<open>break\<close>.
\<close>

fun findNotes :: "version list \<Rightarrow> Version \<Rightarrow> int \<Rightarrow> int \<times> int" where
  "findNotes [] v startLine = (startLine, -1)"
| "findNotes (ver # rest) v startLine =
     (if startLine \<noteq> -1 then (startLine, line ver - 1)
      else if Version ver = v then findNotes rest v (line ver)
      else findNotes rest v startLine)"

text \<open>
  \<open>for startLine < len(c.lines) && strings.TrimSpace(c.lines[startLine]) == "" { startLine++ }\<close>
\<close>

function skipBlank :: "string list \<Rightarrow> int \<Rightarrow> panic + int" where
  "skipBlank ls startLine =
     (if startLine < int (length ls) then
        (if startLine < 0 then Inl IndexOutOfRange
         else if TrimSpace (ls ! nat startLine) = [] then skipBlank ls (startLine + 1)
         else Inr startLine)
      else Inr startLine)"
  by pat_completeness auto
termination
  by (relation "measure (\<lambda>(ls, startLine). nat (int (length ls) - startLine))") auto

declare skipBlank.simps [simp del]

text \<open>
  \<open>for endLine > startLine && strings.TrimSpace(c.lines[endLine-1]) == "" { endLine-- }\<close>
\<close>

function trimBlank :: "string list \<Rightarrow> int \<Rightarrow> int \<Rightarrow> panic + int" where
  "trimBlank ls startLine endLine =
     (if endLine > startLine then
        (if endLine - 1 < 0 \<or> endLine - 1 \<ge> int (length ls) then Inl IndexOutOfRange
         else if TrimSpace (ls ! nat (endLine - 1)) = [] then trimBlank ls startLine (endLine - 1)
         else Inr endLine)
      else Inr endLine)"
  by pat_completeness auto
termination
  by (relation "measure (\<lambda>(ls, startLine, endLine). nat (endLine - startLine))") auto

declare trimBlank.simps [simp del]

definition ReleaseNotes :: "Content \<Rightarrow> Version \<Rightarrow> panic + (string \<times> bool)" where
  "ReleaseNotes c v =
     (case findNotes (versions c) v (-1) of
        (startLine, endLine) \<Rightarrow>
          if startLine = -1 then Inr ([], False)
          else
            (case skipBlank (lines c) startLine of
               Inl p \<Rightarrow> Inl p
             | Inr startLine' \<Rightarrow>
                 (case trimBlank (lines c) startLine'
                         (if endLine = -1 then int (length (lines c)) else endLine) of
                    Inl p \<Rightarrow> Inl p
                  | Inr endLine' \<Rightarrow>
                      (case slice (lines c) startLine' endLine' of
                         Inl p \<Rightarrow> Inl p
                       | Inr ls \<Rightarrow> Inr (Join ls [CHR 0x0A], True)))))"

definition Versions :: "Content \<Rightarrow> Version list" where
  "Versions c = List_Sort (map Version (versions c))"

definition CurrentVersion :: "Content \<Rightarrow> Version" where
  "CurrentVersion c =
     (if length (versions c) = 0
      then \<lparr>Major = 0, Minor = 0, Patch = 0, Flavor = []\<rparr>
      else Version (versions c ! 0))"

definition CurrentVersionNotes :: "Content \<Rightarrow> panic + string" where
  "CurrentVersionNotes c =
     (if length (versions c) > 0 then
        (let from = line (versions c ! 0) + 1;
             to = (if length (versions c) > 1 then line (versions c ! 1)
                   else int (length (lines c)))
         in if from < to then
              (case slice (lines c) (from - 1) (to - 1) of
                 Inl p \<Rightarrow> Inl p
               | Inr ls \<Rightarrow> Inr (Join ls [CHR 0x0A]))
            else Inr [])
      else Inr [])"

text \<open>The findings of \<open>Validate\<close>, one constructor for each message.\<close>

datatype Finding =
    NoVersions
  | TopNotFlavored Version int
  | IsFlavored Version int
  | NotGreater Version int Version int

text \<open>
  The body of the loop \<open>for i, curr := range c.versions[1:] { next := c.versions[i]; ... }\<close>.
\<close>

definition validatePair :: "version \<times> version \<Rightarrow> Finding list" where
  "validatePair p =
     (case p of (next', curr') \<Rightarrow>
        (if Flavor (Version curr') \<noteq> [] then [IsFlavored (Version curr') (line curr')] else []) @
        (if \<not> GreaterThan (Version next') (Version curr') False
         then [NotGreater (Version next') (line next') (Version curr') (line curr')] else []))"

definition Validate :: "Content \<Rightarrow> bool \<Rightarrow> Finding list" where
  "Validate c isDevelopmentBranch =
     (if length (versions c) = 0 then [NoVersions]
      else
        (if isDevelopmentBranch \<and> Flavor (Version (versions c ! 0)) = []
         then [TopNotFlavored (Version (versions c ! 0)) (line (versions c ! 0))] else []) @
        concat (map validatePair (zip (versions c) (tl (versions c)))))"

text \<open>The findings about the order of two adjacent entries.\<close>

fun isNotGreater :: "Finding \<Rightarrow> bool" where
  "isNotGreater (NotGreater a i b j) = True"
| "isNotGreater f = False"

definition notGreater :: "version \<times> version \<Rightarrow> Finding" where
  "notGreater p =
     (case p of (next', curr') \<Rightarrow>
        NotGreater (Version next') (line next') (Version curr') (line curr'))"

section \<open>The release tool (package main)\<close>

text \<open>
  A problem of a branch: a finding of \<open>Validate\<close>, or notes for a future major version in
  a release branch.
\<close>

datatype Problem = ChangesProblem Finding | FutureVersion int Version

record branch =
  name :: string
  sha :: string
  releaseVersion :: "int option"
  changes :: Content
  changesPath :: string
  problems :: "Problem list"

record tag =
  name :: string
  sha :: string
  changes :: Content

record release =
  name :: string
  tag :: string

text \<open>
  The maps \<open>branches\<close>, \<open>tags\<close> and \<open>releases\<close> are association lists keyed by name, the
  order of a list standing for the enumeration order of \<open>range\<close>. \<open>mainBranch\<close> is a
  pointer to a branch: \<open>None\<close> for \<open>nil\<close>, otherwise the name of the branch pointed to.
  \<open>fetchBranches\<close> stores every branch under its own name, so \<open>r.mainBranch == b\<close> for an
  entry \<open>b\<close> of the map is the equality of \<open>mainBranch\<close> with the key of the entry; the
  default branch is not in the map when it has no CHANGES file.
\<close>

record repo =
  owner :: string
  name :: string
  url :: string
  mainBranch :: "string option"
  versionStyle :: Style
  branches :: "(string \<times> branch) list"
  tags :: "(string \<times> tag) list"
  releases :: "(string \<times> release) list"
  missingBranches :: Set
  missingTags :: Set
  missingReleases :: Set

text \<open>
  The body shared by the three loops of \<open>determineVersionStyle\<close>, for one name:
  \<open>prefixUses[s.Prefix] = prefixUses[s.Prefix] + 1; usesPatch = !s.OmitPatch && usesPatch\<close>.
\<close>

definition tally :: "string \<Rightarrow> (string \<rightharpoonup> int) \<times> bool \<Rightarrow> (string \<rightharpoonup> int) \<times> bool" where
  "tally n st =
     (case st of (prefixUses, usesPatch) \<Rightarrow>
        (case ParseStyle n of
           None \<Rightarrow> (prefixUses, usesPatch)
         | Some s \<Rightarrow>
             (prefixUses(Prefix s \<mapsto> (case prefixUses (Prefix s) of None \<Rightarrow> 0 | Some k \<Rightarrow> k) + 1),
              \<not> OmitPatch s \<and> usesPatch)))"

text \<open>The names of the branches, the tags and the releases, in the order of the three loops.\<close>

definition artifactNames :: "repo \<Rightarrow> string list" where
  "artifactNames r =
     map (\<lambda>kb. branch.name (snd kb)) (branches r) @
     map (\<lambda>kt. tag.name (snd kt)) (tags r) @
     map (\<lambda>kr. release.name (snd kr)) (releases r)"

text \<open>
  The last loop of \<open>determineVersionStyle\<close>; \<open>ks\<close> lists the keys of \<open>prefixUses\<close> in the
  order in which \<open>range\<close> happens to enumerate them.
\<close>

definition mostCommonPrefix :: "(string \<rightharpoonup> int) \<Rightarrow> string list \<Rightarrow> string \<times> int" where
  "mostCommonPrefix prefixUses ks =
     fold (\<lambda>p acc. case prefixUses p of
                      None \<Rightarrow> acc
                    | Some c \<Rightarrow> if c \<ge> snd acc then (p, c) else acc)
          ks (''release-'', 0)"

definition determineVersionStyle :: "repo \<Rightarrow> string list \<Rightarrow> repo" where
  "determineVersionStyle r ks =
     (case fold tally (artifactNames r) (Map.empty, True) of
        (prefixUses, usesPatch) \<Rightarrow>
          r\<lparr>versionStyle :=
              \<lparr>Prefix = fst (mostCommonPrefix prefixUses ks), OmitPatch = \<not> usesPatch\<rparr>\<rparr>)"

definition branchNameForVersion :: "repo \<Rightarrow> Version \<Rightarrow> string" where
  "branchNameForVersion r v =
     (if OmitPatch (versionStyle r) then Prefix (versionStyle r) @ itoa (Major v) @ ''.x''
      else Prefix (versionStyle r) @ itoa (Major v) @ ''.x.x'')"

definition tagNameForVersion :: "repo \<Rightarrow> Version \<Rightarrow> string" where
  "tagNameForVersion r v = Format (versionStyle r) v"

definition releaseNameForVersion :: "repo \<Rightarrow> Version \<Rightarrow> string" where
  "releaseNameForVersion r v = Format (versionStyle r) v"

text \<open>
  The body of the loop over \<open>b.changes.Versions()\<close> in \<open>repo.validate\<close>, where \<open>isMain\<close> is
  \<open>r.mainBranch == b\<close>.
\<close>

definition noteMissing :: "bool \<Rightarrow> Version \<Rightarrow> repo \<Rightarrow> repo" where
  "noteMissing isMain v r =
     (if Flavor v \<noteq> [] then r
      else if isMain then
        (let r = (if map_of (branches r) (branchNameForVersion r v) = None
                  then r\<lparr>missingBranches := Set_Add (missingBranches r) v\<rparr> else r);
             r = (if map_of (tags r) (tagNameForVersion r v) = None
                  then r\<lparr>missingTags := Set_Add (missingTags r) v\<rparr> else r);
             r = (if map_of (releases r) (releaseNameForVersion r v) = None
                  then r\<lparr>missingReleases := Set_Add (missingReleases r) v\<rparr> else r)
         in r)
      else r)"

text \<open>
  The check of a release branch: the first version of a later major release is
  reported, and the loop ends there.
\<close>

definition futureVersions :: "branch \<Rightarrow> Problem list" where
  "futureVersions b =
     (case releaseVersion b of
        None \<Rightarrow> []
      | Some rv \<Rightarrow>
          (case find (\<lambda>v. Major v > rv) (Versions (branch.changes b)) of
             None \<Rightarrow> []
           | Some v \<Rightarrow> [FutureVersion rv v]))"

text \<open>
  One round of the loop over \<open>r.branches\<close>. The branch is updated in place through its
  pointer; the problems returned are pairs of the branch's name and the problem.
\<close>

definition validateBranch ::
  "string \<times> branch \<Rightarrow> repo \<times> (string \<times> Problem) list \<Rightarrow> repo \<times> (string \<times> Problem) list" where
  "validateBranch kb st =
     (case kb of (k, b) \<Rightarrow>
      case st of (r, found) \<Rightarrow>
        (let isDevelopmentBranch = (mainBranch r = Some k);
             b = b\<lparr>problems := problems b @
                    map ChangesProblem (Validate (branch.changes b) isDevelopmentBranch)\<rparr>;
             r = fold (noteMissing (mainBranch r = Some k)) (Versions (branch.changes b)) r;
             b = b\<lparr>problems := problems b @ futureVersions b\<rparr>;
             r = r\<lparr>branches := map (\<lambda>kb'. if fst kb' = k then (k, b) else kb') (branches r)\<rparr>
         in (r, found @ map (Pair (branch.name b)) (problems b))))"

definition validate :: "repo \<Rightarrow> repo \<times> (string \<times> Problem) list" where
  "validate r =
     (let r = r\<lparr>missingBranches := [], missingTags := [], missingReleases := []\<rparr>
      in fold validateBranch (branches r) (r, []))"

subsection \<open>The scan of the history in createMissingBranchesAndTags\<close>

record ChangeList =
  Hash :: string
  Date :: string
  Author :: string
  Subject :: string
  Description :: string

datatype ScanError = FailedToRead string string | FailedToParse string ReadError

record scan =
  missingBranches :: Set
  missingTags :: Set
  branchesToCreate :: "(Version \<times> string) list"
  tagsToCreate :: "(Version \<times> string) list"
  errs :: "ScanError list"

text \<open>
  The two inner loops are the same but for the set and the plan they work on:
  \<open>for _, v := range versions.Union(missing).List() { missing.Remove(v); toCreate = append(toCreate, versionAndHash{v, cl.Hash}) }\<close>.
\<close>

definition resolve ::
  "Set \<Rightarrow> string \<Rightarrow> Set \<times> (Version \<times> string) list \<Rightarrow> Set \<times> (Version \<times> string) list" where
  "resolve versions' h st =
     fold (\<lambda>v st'. (Set_Remove (fst st') v, snd st' @ [(v, h)]))
          (Set_List (Set_Union versions' (fst st))) st"

text \<open>
  One round of the loop over the log. \<open>Show\<close> stands for \<open>g.Show(wd, path, _)\<close>, the text of
  the CHANGES file at a commit or the error of git.
\<close>

definition scanCommit :: "(string \<Rightarrow> string + string) \<Rightarrow> ChangeList \<Rightarrow> scan \<Rightarrow> scan" where
  "scanCommit Show cl st =
     (case Show (Hash cl) of
        Inl err \<Rightarrow> st\<lparr>errs := errs st @ [FailedToRead (Hash cl) err]\<rparr>
      | Inr content \<Rightarrow>
          (case Read content of
             Inl err \<Rightarrow> st\<lparr>errs := errs st @ [FailedToParse (Hash cl) err]\<rparr>
           | Inr c \<Rightarrow>
               (let versions' = List_Set (Versions c);
                    b = resolve versions' (Hash cl) (scan.missingBranches st, branchesToCreate st);
                    t = resolve versions' (Hash cl) (scan.missingTags st, tagsToCreate st)
                in st\<lparr>scan.missingBranches := fst b, branchesToCreate := snd b,
                      scan.missingTags := fst t, tagsToCreate := snd t\<rparr>)))"

text \<open>
  \<open>for i := len(log) - 1; i >= 0; i--\<close>: the log of git starts with the most recent
  commit, the loop with the oldest.
\<close>

definition scanLog :: "(string \<Rightarrow> string + string) \<Rightarrow> ChangeList list \<Rightarrow> scan \<Rightarrow> scan" where
  "scanLog Show log st = fold (scanCommit Show) (rev log) st"

definition scanHistory :: "(string \<Rightarrow> string + string) \<Rightarrow> ChangeList list \<Rightarrow> repo \<Rightarrow> scan" where
  "scanHistory Show log r =
     scanLog Show log
       \<lparr>missingBranches = Set_Clone (repo.missingBranches r),
        missingTags = Set_Clone (repo.missingTags r),
        branchesToCreate = [], tagsToCreate = [], errs = []\<rparr>"

text \<open>
  The snapshot of the CHANGES file at the commit \<open>cl\<close> can be read, parses, and declares
  the version \<open>v\<close>.
\<close>

definition declares :: "(string \<Rightarrow> string + string) \<Rightarrow> ChangeList \<Rightarrow> Version \<Rightarrow> bool" where
  "declares Show cl v =
     (case Show (Hash cl) of
        Inl err \<Rightarrow> False
      | Inr content \<Rightarrow>
          (case Read content of Inl err \<Rightarrow> False | Inr c \<Rightarrow> v \<in> set (Versions c)))"

text \<open>The snapshot at the commit \<open>cl\<close> cannot be read or does not parse.\<close>

definition snapshotFails :: "(string \<Rightarrow> string + string) \<Rightarrow> ChangeList \<Rightarrow> bool" where
  "snapshotFails Show cl =
     (case Show (Hash cl) of
        Inl err \<Rightarrow> True
      | Inr content \<Rightarrow> (case Read content of Inl err \<Rightarrow> True | Inr c \<Rightarrow> False))"

subsection \<open>Example data\<close>

text \<open>A repository without branches and releases, with tags of the given names.\<close>

definition repoWithTags :: "string list \<Rightarrow> repo" where
  "repoWithTags ns =
     \<lparr>owner = [], name = [], url = [], mainBranch = None,
      versionStyle = \<lparr>Prefix = [], OmitPatch = False\<rparr>,
      branches = [],
      tags = map (\<lambda>n. (n, \<lparr>tag.name = n, tag.sha = [], tag.changes = \<lparr>versions = [], lines = []\<rparr>\<rparr>)) ns,
      releases = [],
      missingBranches = [], missingTags = [], missingReleases = []\<rparr>"

text \<open>
  A history of four commits of the CHANGES file, the oldest being \<open>c1\<close>: version 2.0.0 is
  first declared at \<open>c2\<close>, and the snapshot at \<open>c3\<close> does not parse (its major number does
  not fit an \<open>int\<close>).
\<close>

definition exampleShow :: "string \<Rightarrow> string + string" where
  "exampleShow h =
     (if h = ''c1'' then Inr ''1.0.0''
      else if h = ''c2'' then Inr ''2.0.0\<newline>1.0.0''
      else if h = ''c3'' then Inr ''99999999999999999999.0\<newline>2.0.0\<newline>1.0.0''
      else if h = ''c4'' then Inr ''2.1.0-dev\<newline>2.0.0\<newline>1.0.0''
      else Inl ''unknown revision'')"

definition commit :: "string \<Rightarrow> ChangeList" where
  "commit h = \<lparr>Hash = h, Date = [], Author = [], Subject = [], Description = []\<rparr>"

definition exampleLog :: "ChangeList list" where
  "exampleLog = [commit ''c4'', commit ''c3'', commit ''c2'', commit ''c1'']"

definition v200 :: Version where
  "v200 = \<lparr>Major = 2, Minor = 0, Patch = 0, Flavor = []\<rparr>"

text \<open>
  A repository whose main branch holds the snapshot of \<open>c4\<close>, with the tag \<open>v1.0.0\<close> and
  the style of that tag; version 2.0.0 is recorded as a missing branch and a missing tag.
\<close>

definition exampleBranch :: branch where
  "exampleBranch =
     \<lparr>branch.name = ''main'', branch.sha = ''c4'', releaseVersion = None,
      branch.changes =
        \<lparr>versions =
           [\<lparr>Version = \<lparr>Major = 2, Minor = 1, Patch = 0, Flavor = ''dev''\<rparr>, line = 1, prefix = [],
              style = \<lparr>Prefix = [], OmitPatch = False\<rparr>, sep = [], date = []\<rparr>,
            \<lparr>Version = \<lparr>Major = 2, Minor = 0, Patch = 0, Flavor = []\<rparr>, line = 2, prefix = [],
              style = \<lparr>Prefix = [], OmitPatch = False\<rparr>, sep = [], date = []\<rparr>,
            \<lparr>Version = \<lparr>Major = 1, Minor = 0, Patch = 0, Flavor = []\<rparr>, line = 3, prefix = [],
              style = \<lparr>Prefix = [], OmitPatch = False\<rparr>, sep = [], date = []\<rparr>],
         lines = [''2.1.0-dev'', ''2.0.0'', ''1.0.0'']\<rparr>,
      changesPath = ''CHANGES'', problems = []\<rparr>"

definition exampleRepo :: repo where
  "exampleRepo =
     (repoWithTags [''v1.0.0''])
       \<lparr>mainBranch := Some ''main'',
        versionStyle := \<lparr>Prefix = ''v'', OmitPatch = False\<rparr>,
        branches := [(''main'', exampleBranch)],
        repo.missingBranches := [v200],
        repo.missingTags := [v200]\<rparr>"

text \<open>The state in which the scan of the history of \<open>exampleRepo\<close> starts.\<close>

definition exampleScan :: scan where
  "exampleScan =
     \<lparr>missingBranches = [v200], missingTags = [v200], branchesToCreate = [], tagsToCreate = [],
      errs = []\<rparr>"


section \<open>The rounds of TrimSpace\<close>

lemma find_SomeD: "find P xs = Some x \<Longrightarrow> x \<in> set xs \<and> P x"
  by (induction xs) (auto split: if_splits)

lemma spaceRunes_nonempty: "r \<in> set spaceRunes \<Longrightarrow> r \<noteq> []"
  by (auto simp: spaceRunes_def)

lemma leadingSpace_bounds: "leadingSpace s = Some k \<Longrightarrow> 0 < k \<and> k \<le> length s"
proof -
  assume "leadingSpace s = Some k"
  then obtain r where r: "find (\<lambda>r. take (length r) s = r) spaceRunes = Some r" "k = length r"
    by (auto simp: leadingSpace_def)
  from find_SomeD [OF r(1)] have "r \<in> set spaceRunes" "take (length r) s = r" by auto
  then have "r \<noteq> []" "length (take (length r) s) = length r"
    by (auto simp: spaceRunes_nonempty)
  with r(2) show ?thesis by simp
qed

lemma trailingSpace_bounds: "trailingSpace s = Some k \<Longrightarrow> 0 < k \<and> k \<le> length s"
proof -
  assume "trailingSpace s = Some k"
  then obtain r where r: "find (\<lambda>r. length r \<le> length s \<and> drop (length s - length r) s = r)
      spaceRunes = Some r" "k = length r"
    by (auto simp: trailingSpace_def)
  from find_SomeD [OF r(1)] have "r \<in> set spaceRunes" "length r \<le> length s" by auto
  with r(2) show ?thesis by (auto simp: spaceRunes_nonempty)
qed

lemma trimLeft_done: "length s \<le> fuel \<Longrightarrow> leadingSpace (trimLeft fuel s) = None"
proof (induction fuel arbitrary: s)
  case 0
  then show ?case
    using leadingSpace_bounds [of s] by (cases "leadingSpace s") auto
next
  case (Suc fuel)
  show ?case
  proof (cases "leadingSpace s")
    case None
    then show ?thesis by simp
  next
    case (Some k)
    from leadingSpace_bounds [OF Some] Suc.prems have "length (drop k s) \<le> fuel"
      by (simp, arith)
    from Suc.IH [OF this] Some show ?thesis
      by simp
  qed
qed

lemma trimRight_done: "length s \<le> fuel \<Longrightarrow> trailingSpace (trimRight fuel s) = None"
proof (induction fuel arbitrary: s)
  case 0
  then show ?case
    using trailingSpace_bounds [of s] by (cases "trailingSpace s") auto
next
  case (Suc fuel)
  show ?case
  proof (cases "trailingSpace s")
    case None
    then show ?thesis by simp
  next
    case (Some k)
    from trailingSpace_bounds [OF Some] Suc.prems have "length (take (length s - k) s) \<le> fuel"
      by (simp, arith)
    from Suc.IH [OF this] Some show ?thesis
      by simp
  qed
qed

section \<open>Properties of the version sets\<close>

lemma set_fold_Set_Add_if:
  "set (fold (\<lambda>v out. if P v then Set_Add out v else out) xs acc) = set acc \<union> {v \<in> set xs. P v}"
  by (induction xs arbitrary: acc) (auto simp: Set_Add_def)

lemma distinct_fold_Set_Add_if:
  "distinct acc \<Longrightarrow> distinct (fold (\<lambda>v out. if P v then Set_Add out v else out) xs acc)"
  by (induction xs arbitrary: acc) (auto simp: Set_Add_def)

lemma set_Set_Union: "set (Set_Union s o') = set s \<inter> set o'"
  by (auto simp: Set_Union_def set_fold_Set_Add_if Set_Contains_def)

lemma distinct_Set_Union: "distinct (Set_Union s o')"
  by (simp add: Set_Union_def distinct_fold_Set_Add_if)

text \<open>
  C10. For all version sets \<open>s\<close> and \<open>o\<close>, the result of \<open>Set.Union\<close> contains a version
  exactly when both \<open>s\<close> and \<open>o\<close> contain it: the operation computes the intersection,
  and a version held by only one of the two sets is never returned.
\<close>

theorem Set_Union_is_intersection:
  "Set_Contains (Set_Union s o') v = (Set_Contains s v \<and> Set_Contains o' v)"
  by (simp add: Set_Contains_def set_Set_Union)

section \<open>Comparison of versions\<close>

lemma strLess_irrefl: "\<not> strLess a a"
  by (induction a) auto

lemma strLess_total: "strLess a b \<or> strLess b a \<or> a = b"
  by (induction a b rule: strLess.induct) auto

lemma Compare_flavor_zero_iff: "Compare a b True = 0 \<longleftrightarrow> a = b"
  using strLess_total [of "Flavor a" "Flavor b"] strLess_irrefl [of "Flavor a"]
  by (cases a; cases b) (auto simp: Compare_def)

lemma Compare_unequal_triples:
  "(Major a, Minor a, Patch a) \<noteq> (Major b, Minor b, Patch b) \<Longrightarrow>
     Compare a b compareFlavor =
       (if Major a < Major b \<or> (Major a = Major b \<and> (Minor a < Minor b \<or>
           (Minor a = Minor b \<and> Patch a < Patch b))) then -1 else 1)"
  by (auto simp: Compare_def)

lemma Compare_equal_triples:
  "(Major a, Minor a, Patch a) = (Major b, Minor b, Patch b) \<Longrightarrow>
     Compare a b False = 0 \<and>
     Compare a b True =
       (if Flavor a = Flavor b then 0
        else if Flavor a = [] then -1
        else if Flavor b = [] then 1
        else if strLess (Flavor a) (Flavor b) then -1 else 1)"
  using strLess_irrefl [of "Flavor a"] strLess_total [of "Flavor a" "Flavor b"]
  by (auto simp: Compare_def)

text \<open>
  C1. At equal (major, minor, patch) the flavor-aware \<open>Compare\<close> is claimed to order a
  version without flavor strictly above every flavored one. Evaluated on 2.2.1 and
  2.2.1-dev the function returns \<open>-1\<close>: the version without flavor is the smaller one.
\<close>

theorem Compare_empty_flavor_is_less:
  "Compare \<lparr>Major = 2, Minor = 2, Patch = 1, Flavor = []\<rparr>
     \<lparr>Major = 2, Minor = 2, Patch = 1, Flavor = ''dev''\<rparr> True = -1"
  by (simp add: Compare_def)

section \<open>Reading and printing a CHANGES file\<close>

lemma Split_not_Nil: "Split s d \<noteq> []"
  by (induction s) (auto split: list.splits)

lemma Join_Cons: "Join (x # xs) d = (if xs = [] then x else x @ d @ Join xs d)"
  by (cases xs) auto

lemma Join_Split: "Join (Split s c) [c] = s"
proof (induction s)
  case Nil
  then show ?case by simp
next
  case (Cons x s)
  obtain l ls where r: "Split s c = l # ls"
    using Split_not_Nil [of s c] by (cases "Split s c") auto
  with Cons show ?case by (auto simp: Join_Cons)
qed

lemma parse_lines: "parse c = Inr c' \<Longrightarrow> lines c' = lines c"
  by (auto simp: parse_def split: sum.splits)

text \<open>
  C6. For every text on which \<open>Read\<close> succeeds, \<open>String\<close> of the content read is the text
  itself: parsing adds, drops or alters no line.
\<close>

theorem Read_String_roundtrip: "Read body = Inr c \<Longrightarrow> String c = body"
  by (auto simp: Read_def String_def Join_Split dest!: parse_lines)

theorem Read_String_roundtrip_witness:
  "Read ''# Notes\<newline>## 1.2.3  2015-11-30\<newline>\<newline>purr\<newline>'' =
     Inr \<lparr>versions = [\<lparr>Version = \<lparr>Major = 1, Minor = 2, Patch = 3, Flavor = []\<rparr>, line = 2,
            prefix = ''## '', style = \<lparr>Prefix = [], OmitPatch = False\<rparr>, sep = ''  '',
            date = ''2015-11-30''\<rparr>],
          lines = [''# Notes'', ''## 1.2.3  2015-11-30'', [], ''purr'', []]\<rparr> \<and>
   String \<lparr>versions = [\<lparr>Version = \<lparr>Major = 1, Minor = 2, Patch = 3, Flavor = []\<rparr>, line = 2,
            prefix = ''## '', style = \<lparr>Prefix = [], OmitPatch = False\<rparr>, sep = ''  '',
            date = ''2015-11-30''\<rparr>],
          lines = [''# Notes'', ''## 1.2.3  2015-11-30'', [], ''purr'', []]\<rparr> =
     ''# Notes\<newline>## 1.2.3  2015-11-30\<newline>\<newline>purr\<newline>''"
proof -
  have r: "Read ''# Notes\<newline>## 1.2.3  2015-11-30\<newline>\<newline>purr\<newline>'' =
     Inr \<lparr>versions = [\<lparr>Version = \<lparr>Major = 1, Minor = 2, Patch = 3, Flavor = []\<rparr>, line = 2,
            prefix = ''## '', style = \<lparr>Prefix = [], OmitPatch = False\<rparr>, sep = ''  '',
            date = ''2015-11-30''\<rparr>],
          lines = [''# Notes'', ''## 1.2.3  2015-11-30'', [], ''purr'', []]\<rparr>"
    by code_simp
  from Read_String_roundtrip [OF r] r show ?thesis by simp
qed

lemma CurrentVersionNotes_not_trimmed:
  "map_sum id (\<lambda>c. (CurrentVersionNotes c, ReleaseNotes c (CurrentVersion c)))
     (Read ''1.0.0\<newline>\<newline>notes\<newline>\<newline>0.9.0'') =
   Inr (Inr ''\<newline>notes\<newline>'', Inr (''notes'', True))"
  by code_simp

text \<open>
  C7. \<open>CurrentVersionNotes\<close> is claimed to return what \<open>ReleaseNotes\<close> returns for the
  version of the topmost entry. On the two lines \<open>1.0.0\<close> and \<open>notes\<close> the former returns
  the empty string and the latter \<open>notes\<close>.
\<close>

theorem CurrentVersionNotes_differs_from_ReleaseNotes:
  "Read ''1.0.0\<newline>notes'' =
     Inr \<lparr>versions = [\<lparr>Version = \<lparr>Major = 1, Minor = 0, Patch = 0, Flavor = []\<rparr>, line = 1,
            prefix = [], style = \<lparr>Prefix = [], OmitPatch = False\<rparr>, sep = [], date = []\<rparr>],
          lines = [''1.0.0'', ''notes'']\<rparr> \<and>
   CurrentVersionNotes \<lparr>versions = [\<lparr>Version = \<lparr>Major = 1, Minor = 0, Patch = 0, Flavor = []\<rparr>,
            line = 1, prefix = [], style = \<lparr>Prefix = [], OmitPatch = False\<rparr>, sep = [], date = []\<rparr>],
          lines = [''1.0.0'', ''notes'']\<rparr> = Inr [] \<and>
   ReleaseNotes \<lparr>versions = [\<lparr>Version = \<lparr>Major = 1, Minor = 0, Patch = 0, Flavor = []\<rparr>,
            line = 1, prefix = [], style = \<lparr>Prefix = [], OmitPatch = False\<rparr>, sep = [], date = []\<rparr>],
          lines = [''1.0.0'', ''notes'']\<rparr>
       \<lparr>Major = 1, Minor = 0, Patch = 0, Flavor = []\<rparr> = Inr (''notes'', True)"
  by code_simp

section \<open>Validation of a CHANGES file\<close>

lemma filter_validatePair:
  "filter isNotGreater (concat (map validatePair ps)) =
     map notGreater (filter (\<lambda>p. \<not> GreaterThan (Version (fst p)) (Version (snd p)) False) ps)"
  by (induction ps) (auto simp: validatePair_def notGreater_def)

lemma filter_isNotGreater_Validate:
  "filter isNotGreater (Validate c dev) =
     map notGreater
       (filter (\<lambda>p. \<not> GreaterThan (Version (fst p)) (Version (snd p)) False)
          (zip (versions c) (tl (versions c))))"
  by (cases "versions c") (auto simp: Validate_def filter_validatePair)

lemma Compare_same_ignoring_flavor: "Compare v v False = 0"
  by (simp add: Compare_def)

lemma Validate_adjacent_identical:
  "versions c = [a, b] \<Longrightarrow> Version a = Version b \<Longrightarrow>
     filter isNotGreater (Validate c dev) = [notGreater (a, b)]"
  by (simp add: filter_isNotGreater_Validate GreaterThan_def Compare_same_ignoring_flavor)

lemma validatePair_clean:
  "GreaterThan (Version (fst p)) (Version (snd p)) False \<Longrightarrow> Flavor (Version (snd p)) = [] \<Longrightarrow>
     validatePair p = []"
  by (cases p) (simp add: validatePair_def)

lemma Validate_strictly_decreasing:
  assumes "versions c \<noteq> []"
    and "dev \<Longrightarrow> Flavor (Version (hd (versions c))) \<noteq> []"
    and "\<forall>v \<in> set (tl (versions c)). Flavor (Version v) = []"
    and "\<forall>p \<in> set (zip (versions c) (tl (versions c))).
           GreaterThan (Version (fst p)) (Version (snd p)) False"
  shows "Validate c dev = []"
proof -
  have "\<forall>p \<in> set (zip (versions c) (tl (versions c))). validatePair p = []"
    using assms(3,4) by (auto intro!: validatePair_clean dest: set_zip_rightD)
  then have "concat (map validatePair (zip (versions c) (tl (versions c)))) = []"
    by simp
  with assms(1,2) show ?thesis
    by (cases "versions c") (auto simp: Validate_def)
qed

text \<open>
  C4. As stated, with the flavor-aware comparison, the claim fails: \<open>Validate\<close> compares
  adjacent entries with \<open>GreaterThan(curr, false)\<close>. Amended: for every content and every
  pair of entries adjacent in the document, \<open>Validate\<close> reports a finding that cites both
  versions and both line numbers exactly when the earlier entry does not compare strictly
  greater than the later one with flavors ignored, one finding for each such pair, in
  the order of the document. The lemmas \<open>Validate_adjacent_identical\<close> and
  \<open>Validate_strictly_decreasing\<close> are the two particular cases of the claim.
\<close>

theorem Validate_ordering_findings:
  "filter isNotGreater (Validate c dev) =
     map notGreater
       (filter (\<lambda>p. \<not> GreaterThan (Version (fst p)) (Version (snd p)) False)
          (zip (versions c) (tl (versions c))))"
  by (rule filter_isNotGreater_Validate)

theorem Validate_ordering_findings_witness:
  "filter isNotGreater
     (Validate \<lparr>versions =
        [\<lparr>Version = \<lparr>Major = 2, Minor = 2, Patch = 1, Flavor = []\<rparr>, line = 2, prefix = ''### '',
           style = \<lparr>Prefix = [], OmitPatch = False\<rparr>, sep = [], date = []\<rparr>,
         \<lparr>Version = \<lparr>Major = 2, Minor = 1, Patch = 0, Flavor = []\<rparr>, line = 4, prefix = ''### '',
           style = \<lparr>Prefix = [], OmitPatch = False\<rparr>, sep = [], date = []\<rparr>,
         \<lparr>Version = \<lparr>Major = 2, Minor = 1, Patch = 0, Flavor = []\<rparr>, line = 6, prefix = ''### '',
           style = \<lparr>Prefix = [], OmitPatch = False\<rparr>, sep = [], date = []\<rparr>],
        lines = [[], ''### 2.2.1'', [], ''### 2.1.0'', [], ''### 2.1.0'', []]\<rparr> False) =
   [NotGreater \<lparr>Major = 2, Minor = 1, Patch = 0, Flavor = []\<rparr> 4
      \<lparr>Major = 2, Minor = 1, Patch = 0, Flavor = []\<rparr> 6]"
  by (simp add: Validate_ordering_findings notGreater_def GreaterThan_def Compare_def)

theorem Validate_ignores_flavor_counterexample:
  "Read ''2.2.1-b\<newline>\<newline>2.2.1-a'' =
     Inr \<lparr>versions =
        [\<lparr>Version = \<lparr>Major = 2, Minor = 2, Patch = 1, Flavor = ''b''\<rparr>, line = 1, prefix = [],
           style = \<lparr>Prefix = [], OmitPatch = False\<rparr>, sep = [], date = []\<rparr>,
         \<lparr>Version = \<lparr>Major = 2, Minor = 2, Patch = 1, Flavor = ''a''\<rparr>, line = 3, prefix = [],
           style = \<lparr>Prefix = [], OmitPatch = False\<rparr>, sep = [], date = []\<rparr>],
        lines = [''2.2.1-b'', [], ''2.2.1-a'']\<rparr> \<and>
   filter isNotGreater (Validate \<lparr>versions =
        [\<lparr>Version = \<lparr>Major = 2, Minor = 2, Patch = 1, Flavor = ''b''\<rparr>, line = 1, prefix = [],
           style = \<lparr>Prefix = [], OmitPatch = False\<rparr>, sep = [], date = []\<rparr>,
         \<lparr>Version = \<lparr>Major = 2, Minor = 2, Patch = 1, Flavor = ''a''\<rparr>, line = 3, prefix = [],
           style = \<lparr>Prefix = [], OmitPatch = False\<rparr>, sep = [], date = []\<rparr>],
        lines = [''2.2.1-b'', [], ''2.2.1-a'']\<rparr> False) =
     [NotGreater \<lparr>Major = 2, Minor = 2, Patch = 1, Flavor = ''b''\<rparr> 1
        \<lparr>Major = 2, Minor = 2, Patch = 1, Flavor = ''a''\<rparr> 3] \<and>
   GreaterThan \<lparr>Major = 2, Minor = 2, Patch = 1, Flavor = ''b''\<rparr>
     \<lparr>Major = 2, Minor = 2, Patch = 1, Flavor = ''a''\<rparr> True"
  by code_simp

section \<open>Inference of the version style\<close>

lemma snd_fold_tally:
  "snd (fold tally ns st) =
     (snd st \<and> \<not> (\<exists>n \<in> set ns. \<exists>s. ParseStyle n = Some s \<and> OmitPatch s))"
  by (induction ns arbitrary: st) (auto simp: tally_def split: prod.splits option.splits)

lemma fold_tally_none:
  "\<forall>n \<in> set ns. ParseStyle n = None \<Longrightarrow> fold tally ns st = st"
  by (induction ns arbitrary: st) (auto simp: tally_def split: prod.splits)

lemma mostCommonPrefix_empty: "mostCommonPrefix Map.empty ks = (''release-'', 0)"
  unfolding mostCommonPrefix_def by (induction ks) auto

lemma OmitPatch_determineVersionStyle:
  "OmitPatch (versionStyle (determineVersionStyle r ks)) =
     (\<exists>n \<in> set (artifactNames r). \<exists>s. ParseStyle n = Some s \<and> OmitPatch s)"
  using snd_fold_tally [of "artifactNames r" "(Map.empty, True)"]
  by (auto simp: determineVersionStyle_def split: prod.splits)

lemma determineVersionStyle_default:
  "\<forall>n \<in> set (artifactNames r). ParseStyle n = None \<Longrightarrow>
     versionStyle (determineVersionStyle r ks) = \<lparr>Prefix = ''release-'', OmitPatch = False\<rparr>"
  by (simp add: determineVersionStyle_def fold_tally_none mostCommonPrefix_empty)

text \<open>
  C3. As stated the claim fails: one name without patch digit is enough for \<open>omitPatch\<close>,
  whatever the other names carry. Amended: for every collection of branch, tag and
  release names and every enumeration order of the prefixes, the inferred \<open>omitPatch\<close> is
  true exactly when at least one name that parses under the style grammar omitted the
  patch digit (so it is false exactly when every parsed name carried one); when no name
  parses, the inferred style is the prefix \<open>release-\<close> with the patch digit included.
\<close>

theorem determineVersionStyle_style:
  "OmitPatch (versionStyle (determineVersionStyle r ks)) =
     (\<exists>n \<in> set (artifactNames r). \<exists>s. ParseStyle n = Some s \<and> OmitPatch s) \<and>
   ((\<forall>n \<in> set (artifactNames r). ParseStyle n = None) \<longrightarrow>
      versionStyle (determineVersionStyle r ks) = \<lparr>Prefix = ''release-'', OmitPatch = False\<rparr>)"
  using OmitPatch_determineVersionStyle determineVersionStyle_default by blast


lemma artifactNames_repoWithTags: "artifactNames (repoWithTags ns) = ns"
  by (simp add: artifactNames_def repoWithTags_def comp_def)

theorem determineVersionStyle_style_witness:
  "OmitPatch (versionStyle (determineVersionStyle (repoWithTags [''v1.0'', ''v1.0.1'']) [''v''])) \<and>
   versionStyle (determineVersionStyle (repoWithTags [''main'', ''latest'']) []) =
     \<lparr>Prefix = ''release-'', OmitPatch = False\<rparr>"
proof -
  have a: "ParseStyle ''v1.0'' = Some \<lparr>Prefix = ''v'', OmitPatch = True\<rparr>"
    by code_simp
  have b: "ParseStyle ''main'' = None" "ParseStyle ''latest'' = None"
    by code_simp+
  from a have "\<exists>n \<in> set (artifactNames (repoWithTags [''v1.0'', ''v1.0.1''])).
                 \<exists>s. ParseStyle n = Some s \<and> OmitPatch s"
    by (simp add: artifactNames_repoWithTags)
  moreover from b have "\<forall>n \<in> set (artifactNames (repoWithTags [''main'', ''latest''])).
                 ParseStyle n = None"
    by (simp add: artifactNames_repoWithTags)
  ultimately show ?thesis
    using determineVersionStyle_style [of "repoWithTags [''v1.0'', ''v1.0.1'']" "[''v'']"]
      determineVersionStyle_style [of "repoWithTags [''main'', ''latest'']" "[]"]
    by blast
qed

theorem determineVersionStyle_counterexample:
  "ParseStyle ''v1.0.1'' = Some \<lparr>Prefix = ''v'', OmitPatch = False\<rparr> \<and>
   versionStyle (determineVersionStyle (repoWithTags [''v1.0'', ''v1.0.1'']) [''v'']) =
     \<lparr>Prefix = ''v'', OmitPatch = True\<rparr>"
  by code_simp

section \<open>The scan of the history\<close>

lemma set_insertVersion: "set (insertVersion v xs) = insert v (set xs)"
  by (induction xs) auto

lemma distinct_insertVersion: "distinct (insertVersion v xs) = (v \<notin> set xs \<and> distinct xs)"
  by (induction xs) (auto simp: set_insertVersion)

lemma set_List_Sort: "set (List_Sort xs) = set xs"
  unfolding List_Sort_def by (induction xs) (auto simp: set_insertVersion)

lemma distinct_List_Sort: "distinct (List_Sort xs) = distinct xs"
  unfolding List_Sort_def
  by (induction xs) (auto simp: distinct_insertVersion set_List_Sort [unfolded List_Sort_def])

lemma fold_snoc: "fold (\<lambda>v l. l @ [v]) xs acc = acc @ xs"
  by (induction xs arbitrary: acc) auto

lemma Set_List_eq: "Set_List s = List_Sort s"
  by (simp add: Set_List_def fold_snoc)

lemma set_List_Set: "set (List_Set l) = set l"
  using set_fold_Set_Add_if [of "\<lambda>v. True" l "[]"] by (simp add: List_Set_def)

lemma set_Set_Clone: "set (Set_Clone s) = set s"
  using set_fold_Set_Add_if [of "\<lambda>v. True" s "[]"] by (simp add: Set_Clone_def)

lemma fold_resolve:
  "fold (\<lambda>v st'. (Set_Remove (fst st') v, snd st' @ [(v, h)])) L (m, tc) =
     (filter (\<lambda>v. v \<notin> set L) m, tc @ map (\<lambda>v. (v, h)) L)"
proof (induction L arbitrary: m tc)
  case Nil
  then show ?case by simp
next
  case (Cons a L)
  have "filter (\<lambda>v. v \<notin> set L) (removeAll a m) = filter (\<lambda>v. v \<notin> set (a # L)) m"
    by (induction m) auto
  with Cons show ?case by (simp add: Set_Remove_def)
qed

lemma resolve_eq:
  "resolve vs h (m, tc) =
     (filter (\<lambda>v. v \<notin> set vs) m, tc @ map (\<lambda>v. (v, h)) (List_Sort (Set_Union vs m)))"
proof -
  have "filter (\<lambda>v. v \<notin> set (List_Sort (Set_Union vs m))) m = filter (\<lambda>v. v \<notin> set vs) m"
    by (rule filter_cong) (auto simp: set_List_Sort set_Set_Union)
  then show ?thesis
    by (simp add: resolve_def fold_resolve Set_List_eq)
qed

lemma filter_plan:
  "filter (\<lambda>p. fst p = v) (map (\<lambda>x. (x, h)) L) = map (\<lambda>x. (x, h)) (filter (\<lambda>x. x = v) L)"
  by (induction L) auto

lemma filter_eq_distinct:
  "distinct L \<Longrightarrow> filter (\<lambda>x. x = v) L = (if v \<in> set L then [v] else [])"
  by (induction L) auto

lemma resolve_missing:
  "v \<in> set (fst (resolve vs h (m, tc))) \<longleftrightarrow> v \<in> set m \<and> v \<notin> set vs"
  by (auto simp: resolve_eq)

lemma resolve_plan:
  "filter (\<lambda>p. fst p = v) (snd (resolve vs h (m, tc))) =
     filter (\<lambda>p. fst p = v) tc @ (if v \<in> set vs \<and> v \<in> set m then [(v, h)] else [])"
  by (simp add: resolve_eq filter_plan filter_eq_distinct distinct_List_Sort distinct_Set_Union
      set_List_Sort set_Set_Union)


lemma scanCommit_missingTags:
  "v \<in> set (scan.missingTags (scanCommit Show cl st)) \<longleftrightarrow>
     v \<in> set (scan.missingTags st) \<and> \<not> declares Show cl v"
  by (auto simp: scanCommit_def declares_def Let_def resolve_missing set_List_Set
      split: sum.splits)

lemma scanCommit_missingBranches:
  "v \<in> set (scan.missingBranches (scanCommit Show cl st)) \<longleftrightarrow>
     v \<in> set (scan.missingBranches st) \<and> \<not> declares Show cl v"
  by (auto simp: scanCommit_def declares_def Let_def resolve_missing set_List_Set
      split: sum.splits)

lemma scanCommit_tagsToCreate:
  "filter (\<lambda>p. fst p = v) (tagsToCreate (scanCommit Show cl st)) =
     filter (\<lambda>p. fst p = v) (tagsToCreate st) @
     (if declares Show cl v \<and> v \<in> set (scan.missingTags st) then [(v, Hash cl)] else [])"
  by (auto simp: scanCommit_def declares_def Let_def resolve_plan set_List_Set
      split: sum.splits)

lemma scanCommit_branchesToCreate:
  "filter (\<lambda>p. fst p = v) (branchesToCreate (scanCommit Show cl st)) =
     filter (\<lambda>p. fst p = v) (branchesToCreate st) @
     (if declares Show cl v \<and> v \<in> set (scan.missingBranches st) then [(v, Hash cl)] else [])"
  by (auto simp: scanCommit_def declares_def Let_def resolve_plan set_List_Set
      split: sum.splits)

text \<open>
  A loop whose rounds remove \<open>v\<close> from a set at the first element with \<open>P\<close> and add the
  pair of \<open>v\<close> and that element to a plan, when \<open>v\<close> is still in the set.
\<close>

lemma fold_still_missing:
  assumes A: "\<And>c st. v \<in> set (gm (f c st)) \<longleftrightarrow> v \<in> set (gm st) \<and> \<not> P c"
  shows "v \<in> set (gm (fold f cs st)) \<longleftrightarrow> v \<in> set (gm st) \<and> (\<forall>c \<in> set cs. \<not> P c)"
  by (induction cs arbitrary: st) (auto simp: A)

lemma fold_plan_unchanged:
  assumes A: "\<And>c st. v \<in> set (gm (f c st)) \<longleftrightarrow> v \<in> set (gm st) \<and> \<not> P c"
    and B: "\<And>c st. filter (\<lambda>p. fst p = v) (gp (f c st)) =
              filter (\<lambda>p. fst p = v) (gp st) @ (if P c \<and> v \<in> set (gm st) then [(v, H c)] else [])"
    and "v \<notin> set (gm st) \<or> (\<forall>c \<in> set cs. \<not> P c)"
  shows "filter (\<lambda>p. fst p = v) (gp (fold f cs st)) = filter (\<lambda>p. fst p = v) (gp st)"
  using assms(3) by (induction cs arbitrary: st) (auto simp: A B)

lemma fold_first_resolution:
  assumes A: "\<And>c st. v \<in> set (gm (f c st)) \<longleftrightarrow> v \<in> set (gm st) \<and> \<not> P c"
    and B: "\<And>c st. filter (\<lambda>p. fst p = v) (gp (f c st)) =
              filter (\<lambda>p. fst p = v) (gp st) @ (if P c \<and> v \<in> set (gm st) then [(v, H c)] else [])"
    and m: "v \<in> set (gm st)" and pre: "\<forall>x \<in> set pre. \<not> P x" and c: "P c"
  shows "filter (\<lambda>p. fst p = v) (gp (fold f (pre @ c # post) st)) =
           filter (\<lambda>p. fst p = v) (gp st) @ [(v, H c)]"
proof -
  let ?s1 = "fold f pre st"
  have m1: "v \<in> set (gm ?s1)"
    using fold_still_missing [of v gm f P pre st, OF A] m pre by simp
  have p1: "filter (\<lambda>p. fst p = v) (gp ?s1) = filter (\<lambda>p. fst p = v) (gp st)"
    using fold_plan_unchanged [of v gm f P gp H st pre, OF A B] pre by simp
  have m2: "v \<notin> set (gm (f c ?s1))"
    using c by (simp add: A)
  have p2: "filter (\<lambda>p. fst p = v) (gp (f c ?s1)) = filter (\<lambda>p. fst p = v) (gp st) @ [(v, H c)]"
    using c m1 p1 by (simp add: B)
  have "filter (\<lambda>p. fst p = v) (gp (fold f post (f c ?s1))) = filter (\<lambda>p. fst p = v) (gp (f c ?s1))"
    using fold_plan_unchanged [of v gm f P gp H "f c ?s1" post, OF A B] m2 by simp
  with p2 show ?thesis by simp
qed

lemma scanCommit_failure:
  assumes "snapshotFails Show cl"
  shows "\<exists>e. scanCommit Show cl st = st\<lparr>errs := errs st @ [e]\<rparr> \<and>
           ((\<exists>err. e = FailedToRead (Hash cl) err) \<or> (\<exists>err. e = FailedToParse (Hash cl) err))"
  using assms by (auto simp: snapshotFails_def scanCommit_def split: sum.splits)

lemma scanLog_append:
  "scanLog Show (newer @ cl # older) st =
     scanLog Show newer (scanCommit Show cl (scanLog Show older st))"
  by (simp add: scanLog_def)

lemma first_declaring_commit:
  assumes "cl \<in> set log" and "declares Show cl v"
  shows "\<exists>newer c older. log = newer @ c # older \<and> declares Show c v \<and>
           (\<forall>c' \<in> set older. \<not> declares Show c' v)"
proof -
  from assms have "\<exists>x \<in> set (rev log). declares Show x v" by auto
  then obtain pre c post where s: "rev log = pre @ c # post" "declares Show c v"
      "\<forall>x \<in> set pre. \<not> declares Show x v"
    using split_list_first_prop [of "rev log" "\<lambda>x. declares Show x v"] by blast
  from s(1) have "log = rev post @ c # rev pre"
    by (metis rev_append rev.simps(2) rev_rev_ident append_Cons append_Nil append_assoc)
  with s show ?thesis by (intro exI [of _ "rev post"] exI [of _ c] exI [of _ "rev pre"]) simp
qed

lemma scanLog_tags:
  assumes "v \<in> set (scan.missingTags st)" "declares Show c v" "\<forall>c' \<in> set older. \<not> declares Show c' v"
  shows "filter (\<lambda>p. fst p = v) (tagsToCreate (scanLog Show (newer @ c # older) st)) =
           filter (\<lambda>p. fst p = v) (tagsToCreate st) @ [(v, Hash c)]"
  using fold_first_resolution [of v scan.missingTags "scanCommit Show" "\<lambda>c. declares Show c v"
      tagsToCreate Hash st "rev older" c "rev newer",
      OF scanCommit_missingTags scanCommit_tagsToCreate] assms
  by (simp add: scanLog_def)

lemma scanLog_branches:
  assumes "v \<in> set (scan.missingBranches st)" "declares Show c v" "\<forall>c' \<in> set older. \<not> declares Show c' v"
  shows "filter (\<lambda>p. fst p = v) (branchesToCreate (scanLog Show (newer @ c # older) st)) =
           filter (\<lambda>p. fst p = v) (branchesToCreate st) @ [(v, Hash c)]"
  using fold_first_resolution [of v scan.missingBranches "scanCommit Show" "\<lambda>c. declares Show c v"
      branchesToCreate Hash st "rev older" c "rev newer",
      OF scanCommit_missingBranches scanCommit_branchesToCreate] assms
  by (simp add: scanLog_def)

lemma exampleBranch_is_c4:
  "Read ''2.1.0-dev\<newline>2.0.0\<newline>1.0.0'' = Inr (branch.changes exampleBranch)"
  by code_simp

lemma example_plan:
  "tagsToCreate (scanHistory exampleShow exampleLog exampleRepo) = [(v200, ''c2'')] \<and>
   branchesToCreate (scanHistory exampleShow exampleLog exampleRepo) = [(v200, ''c2'')] \<and>
   errs (scanHistory exampleShow exampleLog exampleRepo) =
     [FailedToParse ''c3'' (OnLine (FailedMajor ''99999999999999999999'') 0)]"
  by code_simp

text \<open>
  C9. A commit whose snapshot cannot be fetched or does not parse never aborts the scan
  of the history: the state reached after the older commits changes by one recorded
  error of that commit only, the pairs already in the plans stay as they are, and every
  newer commit is processed from that state.
\<close>

theorem scan_continues_after_failure:
  assumes "snapshotFails Show cl"
  shows "\<exists>e. scanLog Show (newer @ cl # older) st =
             scanLog Show newer ((scanLog Show older st)\<lparr>errs := errs (scanLog Show older st) @ [e]\<rparr>) \<and>
           ((\<exists>err. e = FailedToRead (Hash cl) err) \<or> (\<exists>err. e = FailedToParse (Hash cl) err))"
  using scanCommit_failure [OF assms, of "scanLog Show older st"]
  by (auto simp: scanLog_append)

theorem scan_continues_after_failure_witness:
  "snapshotFails exampleShow (commit ''c3'') \<and>
   (\<exists>e. scanLog exampleShow ([commit ''c4''] @ commit ''c3'' # [commit ''c2'', commit ''c1''])
            exampleScan =
          scanLog exampleShow [commit ''c4'']
            ((scanLog exampleShow [commit ''c2'', commit ''c1''] exampleScan)
               \<lparr>errs := errs (scanLog exampleShow [commit ''c2'', commit ''c1''] exampleScan) @ [e]\<rparr>) \<and>
        ((\<exists>err. e = FailedToRead (Hash (commit ''c3'')) err) \<or>
         (\<exists>err. e = FailedToParse (Hash (commit ''c3'')) err)))"
proof -
  have f: "snapshotFails exampleShow (commit ''c3'')"
    by code_simp
  from f scan_continues_after_failure [OF f, of "[commit ''c4'']" "[commit ''c2'', commit ''c1'']" exampleScan]
  show ?thesis by blast
qed

text \<open>
  C2. For every version \<open>v\<close> that some commit of the log declares in a snapshot that
  parses, the log splits at the oldest commit \<open>c\<close> that declares \<open>v\<close>; if \<open>v\<close> is a missing
  branch, the plan of branches pairs \<open>v\<close> with \<open>c\<close> and with no other commit, and if \<open>v\<close> is a
  missing tag, so does the plan of tags.
\<close>

theorem backfill_pairs_with_earliest_commit:
  assumes "cl \<in> set log" and "declares Show cl v"
  shows "\<exists>newer c older. log = newer @ c # older \<and> declares Show c v \<and>
           (\<forall>c' \<in> set older. \<not> declares Show c' v) \<and>
           (Set_Contains (repo.missingBranches r) v \<longrightarrow>
              filter (\<lambda>p. fst p = v) (branchesToCreate (scanHistory Show log r)) = [(v, Hash c)]) \<and>
           (Set_Contains (repo.missingTags r) v \<longrightarrow>
              filter (\<lambda>p. fst p = v) (tagsToCreate (scanHistory Show log r)) = [(v, Hash c)])"
proof -
  from first_declaring_commit [OF assms] obtain newer c older where
    s: "log = newer @ c # older" "declares Show c v" "\<forall>c' \<in> set older. \<not> declares Show c' v"
    by blast
  show ?thesis
    using s scanLog_tags [OF _ s(2,3)] scanLog_branches [OF _ s(2,3)]
    by (intro exI [of _ newer] exI [of _ c] exI [of _ older])
       (simp add: scanHistory_def Set_Contains_def set_Set_Clone)
qed

theorem backfill_pairs_with_earliest_commit_witness:
  "commit ''c4'' \<in> set exampleLog \<and> declares exampleShow (commit ''c4'') v200 \<and>
   Set_Contains (repo.missingBranches exampleRepo) v200 \<and>
   Set_Contains (repo.missingTags exampleRepo) v200 \<and>
   (\<exists>newer c older. exampleLog = newer @ c # older \<and> declares exampleShow c v200 \<and>
      (\<forall>c' \<in> set older. \<not> declares exampleShow c' v200) \<and>
      filter (\<lambda>p. fst p = v200) (branchesToCreate (scanHistory exampleShow exampleLog exampleRepo)) =
        [(v200, Hash c)] \<and>
      filter (\<lambda>p. fst p = v200) (tagsToCreate (scanHistory exampleShow exampleLog exampleRepo)) =
        [(v200, Hash c)])"
proof -
  have a: "commit ''c4'' \<in> set exampleLog"
    by (simp add: exampleLog_def)
  have b: "declares exampleShow (commit ''c4'') v200"
    by code_simp
  have c: "Set_Contains (repo.missingBranches exampleRepo) v200"
    "Set_Contains (repo.missingTags exampleRepo) v200"
    by (simp_all add: exampleRepo_def Set_Contains_def)
  from backfill_pairs_with_earliest_commit [OF a b, of exampleRepo] a b c
  show ?thesis by blast
qed

section \<open>The missing branches, tags and releases\<close>

lemma set_Set_Add: "set (Set_Add s v) = insert v (set s)"
  by (auto simp: Set_Add_def)

lemma noteMissing_frame:
  "versionStyle (noteMissing m v r) = versionStyle r"
  "branches (noteMissing m v r) = branches r"
  "tags (noteMissing m v r) = tags r"
  "releases (noteMissing m v r) = releases r"
  "mainBranch (noteMissing m v r) = mainBranch r"
  by (simp_all add: noteMissing_def Let_def)

lemma fold_noteMissing_frame:
  "versionStyle (fold (noteMissing m) vs r) = versionStyle r"
  "branches (fold (noteMissing m) vs r) = branches r"
  "tags (fold (noteMissing m) vs r) = tags r"
  "releases (fold (noteMissing m) vs r) = releases r"
  "mainBranch (fold (noteMissing m) vs r) = mainBranch r"
  by (induction vs arbitrary: r) (simp_all add: noteMissing_frame)

lemma names_noteMissing:
  "branchNameForVersion (noteMissing m a r) x = branchNameForVersion r x"
  "tagNameForVersion (noteMissing m a r) x = tagNameForVersion r x"
  "releaseNameForVersion (noteMissing m a r) x = releaseNameForVersion r x"
  by (simp_all add: branchNameForVersion_def tagNameForVersion_def releaseNameForVersion_def
      noteMissing_frame)

lemma noteMissing_missingBranches:
  "set (repo.missingBranches (noteMissing m v r)) =
     (if m \<and> Flavor v = [] \<and> map_of (branches r) (branchNameForVersion r v) = None
      then insert v (set (repo.missingBranches r)) else set (repo.missingBranches r))"
  by (auto simp: noteMissing_def Let_def set_Set_Add branchNameForVersion_def
      tagNameForVersion_def releaseNameForVersion_def)

lemma noteMissing_missingTags:
  "set (repo.missingTags (noteMissing m v r)) =
     (if m \<and> Flavor v = [] \<and> map_of (tags r) (tagNameForVersion r v) = None
      then insert v (set (repo.missingTags r)) else set (repo.missingTags r))"
  by (auto simp: noteMissing_def Let_def set_Set_Add branchNameForVersion_def
      tagNameForVersion_def releaseNameForVersion_def)

lemma noteMissing_missingReleases:
  "set (repo.missingReleases (noteMissing m v r)) =
     (if m \<and> Flavor v = [] \<and> map_of (releases r) (releaseNameForVersion r v) = None
      then insert v (set (repo.missingReleases r)) else set (repo.missingReleases r))"
  by (auto simp: noteMissing_def Let_def set_Set_Add branchNameForVersion_def
      tagNameForVersion_def releaseNameForVersion_def)


lemma fold_noteMissing_missingBranches:
  "x \<in> set (repo.missingBranches (fold (noteMissing m) vs r)) \<longleftrightarrow>
     x \<in> set (repo.missingBranches r) \<or>
     (x \<in> set vs \<and> m \<and> Flavor x = [] \<and> map_of (branches r) (branchNameForVersion r x) = None)"
proof (induction vs arbitrary: r)
  case Nil
  then show ?case by simp
next
  case (Cons a vs)
  show ?case
    unfolding fold_simps Cons.IH
    by (auto simp: noteMissing_missingBranches noteMissing_frame names_noteMissing)
qed

lemma fold_noteMissing_missingTags:
  "x \<in> set (repo.missingTags (fold (noteMissing m) vs r)) \<longleftrightarrow>
     x \<in> set (repo.missingTags r) \<or>
     (x \<in> set vs \<and> m \<and> Flavor x = [] \<and> map_of (tags r) (tagNameForVersion r x) = None)"
proof (induction vs arbitrary: r)
  case Nil
  then show ?case by simp
next
  case (Cons a vs)
  show ?case
    unfolding fold_simps Cons.IH
    by (auto simp: noteMissing_missingTags noteMissing_frame names_noteMissing)
qed

lemma fold_noteMissing_missingReleases:
  "x \<in> set (repo.missingReleases (fold (noteMissing m) vs r)) \<longleftrightarrow>
     x \<in> set (repo.missingReleases r) \<or>
     (x \<in> set vs \<and> m \<and> Flavor x = [] \<and> map_of (releases r) (releaseNameForVersion r x) = None)"
proof (induction vs arbitrary: r)
  case Nil
  then show ?case by simp
next
  case (Cons a vs)
  show ?case
    unfolding fold_simps Cons.IH
    by (auto simp: noteMissing_missingReleases noteMissing_frame names_noteMissing)
qed


lemma map_of_retag_None:
  "(map_of (map (\<lambda>kb'. if fst kb' = k then (k, b) else kb') xs) n = None) = (map_of xs n = None)"
  by (induction xs) auto

lemma validateBranch_frame:
  "versionStyle (fst (validateBranch kb st)) = versionStyle (fst st)"
  "tags (fst (validateBranch kb st)) = tags (fst st)"
  "releases (fst (validateBranch kb st)) = releases (fst st)"
  "mainBranch (fst (validateBranch kb st)) = mainBranch (fst st)"
  "(map_of (branches (fst (validateBranch kb st))) n = None) = (map_of (branches (fst st)) n = None)"
  by (cases kb; cases st;
      simp add: validateBranch_def Let_def fold_noteMissing_frame map_of_retag_None)+

lemma validateBranch_names:
  "branchNameForVersion (fst (validateBranch kb st)) x = branchNameForVersion (fst st) x"
  "tagNameForVersion (fst (validateBranch kb st)) x = tagNameForVersion (fst st) x"
  "releaseNameForVersion (fst (validateBranch kb st)) x = releaseNameForVersion (fst st) x"
  by (simp_all add: branchNameForVersion_def tagNameForVersion_def releaseNameForVersion_def
      validateBranch_frame)

lemma validateBranch_missing:
  "repo.missingBranches (fst (validateBranch (k, b) st)) =
     repo.missingBranches (fold (noteMissing (mainBranch (fst st) = Some k)) (Versions (branch.changes b)) (fst st))"
  "repo.missingTags (fst (validateBranch (k, b) st)) =
     repo.missingTags (fold (noteMissing (mainBranch (fst st) = Some k)) (Versions (branch.changes b)) (fst st))"
  "repo.missingReleases (fst (validateBranch (k, b) st)) =
     repo.missingReleases (fold (noteMissing (mainBranch (fst st) = Some k)) (Versions (branch.changes b)) (fst st))"
  by (cases st; simp add: validateBranch_def Let_def)+


lemma fold_validateBranch_missingBranches:
  "x \<in> set (repo.missingBranches (fst (fold validateBranch bs st))) \<longleftrightarrow>
     x \<in> set (repo.missingBranches (fst st)) \<or>
     (\<exists>k b. (k, b) \<in> set bs \<and> mainBranch (fst st) = Some k \<and>
        x \<in> set (Versions (branch.changes b)) \<and> Flavor x = [] \<and>
        map_of (branches (fst st)) (branchNameForVersion (fst st) x) = None)"
proof (induction bs arbitrary: st)
  case Nil
  then show ?case by simp
next
  case (Cons kb bs)
  obtain k b where kb: "kb = (k, b)" by (cases kb)
  show ?case
    unfolding fold_simps Cons.IH
    by (auto simp: kb validateBranch_frame validateBranch_names validateBranch_missing
        fold_noteMissing_missingBranches)
qed

lemma fold_validateBranch_missingTags:
  "x \<in> set (repo.missingTags (fst (fold validateBranch bs st))) \<longleftrightarrow>
     x \<in> set (repo.missingTags (fst st)) \<or>
     (\<exists>k b. (k, b) \<in> set bs \<and> mainBranch (fst st) = Some k \<and>
        x \<in> set (Versions (branch.changes b)) \<and> Flavor x = [] \<and>
        map_of (tags (fst st)) (tagNameForVersion (fst st) x) = None)"
proof (induction bs arbitrary: st)
  case Nil
  then show ?case by simp
next
  case (Cons kb bs)
  obtain k b where kb: "kb = (k, b)" by (cases kb)
  show ?case
    unfolding fold_simps Cons.IH
    by (auto simp: kb validateBranch_frame validateBranch_names validateBranch_missing
        fold_noteMissing_missingTags)
qed

lemma fold_validateBranch_missingReleases:
  "x \<in> set (repo.missingReleases (fst (fold validateBranch bs st))) \<longleftrightarrow>
     x \<in> set (repo.missingReleases (fst st)) \<or>
     (\<exists>k b. (k, b) \<in> set bs \<and> mainBranch (fst st) = Some k \<and>
        x \<in> set (Versions (branch.changes b)) \<and> Flavor x = [] \<and>
        map_of (releases (fst st)) (releaseNameForVersion (fst st) x) = None)"
proof (induction bs arbitrary: st)
  case Nil
  then show ?case by simp
next
  case (Cons kb bs)
  obtain k b where kb: "kb = (k, b)" by (cases kb)
  show ?case
    unfolding fold_simps Cons.IH
    by (auto simp: kb validateBranch_frame validateBranch_names validateBranch_missing
        fold_noteMissing_missingReleases)
qed


lemma validate_missing:
  assumes d: "distinct (map fst (branches r))"
    and m: "mainBranch r = Some k"
    and b: "map_of (branches r) k = Some b"
  shows "(Set_Contains (repo.missingBranches (fst (validate r))) v \<longleftrightarrow>
            v \<in> set (Versions (branch.changes b)) \<and> Flavor v = [] \<and>
            map_of (branches r) (branchNameForVersion r v) = None) \<and>
         (Set_Contains (repo.missingTags (fst (validate r))) v \<longleftrightarrow>
            v \<in> set (Versions (branch.changes b)) \<and> Flavor v = [] \<and>
            map_of (tags r) (tagNameForVersion r v) = None) \<and>
         (Set_Contains (repo.missingReleases (fst (validate r))) v \<longleftrightarrow>
            v \<in> set (Versions (branch.changes b)) \<and> Flavor v = [] \<and>
            map_of (releases r) (releaseNameForVersion r v) = None)"
proof -
  have e: "\<And>b'. (k, b') \<in> set (branches r) \<longleftrightarrow> b' = b"
    using d b by (metis map_of_is_SomeI map_of_SomeD option.inject)
  show ?thesis
    using m
    by (simp add: validate_def Let_def Set_Contains_def fold_validateBranch_missingBranches
        fold_validateBranch_missingTags fold_validateBranch_missingReleases e
        branchNameForVersion_def tagNameForVersion_def releaseNameForVersion_def)
qed

lemma validate_without_main_branch:
  assumes "\<And>k. mainBranch r = Some k \<Longrightarrow> map_of (branches r) k = None"
  shows "repo.missingBranches (fst (validate r)) = [] \<and> repo.missingTags (fst (validate r)) = [] \<and>
         repo.missingReleases (fst (validate r)) = []"
proof -
  have n: "\<And>k b. (k, b) \<in> set (branches r) \<Longrightarrow> mainBranch r \<noteq> Some k"
    using assms by (force simp: map_of_eq_None_iff)
  have "\<And>x. x \<notin> set (repo.missingBranches (fst (validate r)))"
    "\<And>x. x \<notin> set (repo.missingTags (fst (validate r)))"
    "\<And>x. x \<notin> set (repo.missingReleases (fst (validate r)))"
    using n
    by (auto simp: validate_def Let_def fold_validateBranch_missingBranches
        fold_validateBranch_missingTags fold_validateBranch_missingReleases)
  then show ?thesis
    by (metis list.set_intros(1) neq_Nil_conv)
qed

text \<open>
  C8. Let the main branch be stored in the map of branches, which holds each name once.
  Then each of the three missing sets computed by \<open>validate\<close> contains a version exactly
  when the version is declared in the document of the main branch, has no flavor, and
  its style-formatted name (of the release branch, the tag or the release) is absent
  from the corresponding existing collection. In particular a flavored version is in no
  missing set.
\<close>

theorem validate_missing_sets:
  assumes "distinct (map fst (branches r))"
    and "mainBranch r = Some k"
    and "map_of (branches r) k = Some b"
  shows "(Set_Contains (repo.missingBranches (fst (validate r))) v \<longleftrightarrow>
            v \<in> set (Versions (branch.changes b)) \<and> Flavor v = [] \<and>
            map_of (branches r) (branchNameForVersion r v) = None) \<and>
         (Set_Contains (repo.missingTags (fst (validate r))) v \<longleftrightarrow>
            v \<in> set (Versions (branch.changes b)) \<and> Flavor v = [] \<and>
            map_of (tags r) (tagNameForVersion r v) = None) \<and>
         (Set_Contains (repo.missingReleases (fst (validate r))) v \<longleftrightarrow>
            v \<in> set (Versions (branch.changes b)) \<and> Flavor v = [] \<and>
            map_of (releases r) (releaseNameForVersion r v) = None)"
  using assms by (rule validate_missing)


lemma example_missing:
  "repo.missingBranches (fst (validate exampleRepo)) =
     [v200, \<lparr>Major = 1, Minor = 0, Patch = 0, Flavor = []\<rparr>] \<and>
   repo.missingTags (fst (validate exampleRepo)) = [v200] \<and>
   repo.missingReleases (fst (validate exampleRepo)) =
     [v200, \<lparr>Major = 1, Minor = 0, Patch = 0, Flavor = []\<rparr>]"
  by code_simp

theorem validate_missing_sets_witness:
  "distinct (map fst (branches exampleRepo)) \<and> mainBranch exampleRepo = Some ''main'' \<and>
   map_of (branches exampleRepo) ''main'' = Some exampleBranch \<and>
   v200 \<in> set (Versions (branch.changes exampleBranch)) \<and>
   Set_Contains (repo.missingBranches (fst (validate exampleRepo))) v200 \<and>
   Set_Contains (repo.missingTags (fst (validate exampleRepo))) v200 \<and>
   Set_Contains (repo.missingReleases (fst (validate exampleRepo))) v200"
proof -
  have h: "distinct (map fst (branches exampleRepo))" "mainBranch exampleRepo = Some ''main''"
    "map_of (branches exampleRepo) ''main'' = Some exampleBranch"
    by (simp_all add: exampleRepo_def)
  have v: "v200 \<in> set (Versions (branch.changes exampleBranch))" "Flavor v200 = []"
    by code_simp+
  have n: "map_of (branches exampleRepo) (branchNameForVersion exampleRepo v200) = None"
    "map_of (tags exampleRepo) (tagNameForVersion exampleRepo v200) = None"
    "map_of (releases exampleRepo) (releaseNameForVersion exampleRepo v200) = None"
    by code_simp+
  from validate_missing_sets [OF h, of v200] h v n show ?thesis by blast
qed

section \<open>Parsing and formatting a version\<close>

subsection \<open>The matches of versionRE and styleRE\<close>

lemma rmatch_ungroup:
  "rmatch (ungroup i r) s = map (\<lambda>(u, t). (filter (\<lambda>c. fst c \<noteq> i) u, t)) (rmatch r s)"
proof (induction r arbitrary: s)
  case (Seq a b)
  show ?case
    by (simp add: Seq map_concat comp_def case_prod_unfold)
next
  case (Group j a)
  then show ?case by (simp add: comp_def case_prod_unfold)
qed (simp_all add: comp_def split: list.splits)

lemma rmatch_regroup:
  "rmatch (regroup f r) s = map (\<lambda>(u, t). (map (\<lambda>c. (f (fst c), snd c)) u, t)) (rmatch r s)"
proof (induction r arbitrary: s)
  case (Seq a b)
  show ?case
    by (simp add: Seq map_concat comp_def case_prod_unfold)
next
  case (Group j a)
  then show ?case by (simp add: comp_def case_prod_unfold)
qed (simp_all add: comp_def split: list.splits)

lemma versionRE_styleRE: "versionRE = regroup (\<lambda>i. i - 1) (ungroup 1 styleRE)"
  by (simp add: versionRE_def styleRE_def plus_def lit_def)


lemma find_map_snd:
  "find (\<lambda>(u, t). t = []) (map (\<lambda>(u, t). (h u, t)) xs) =
     map_option (\<lambda>(u, t). (h u, t)) (find (\<lambda>(u, t). t = []) xs)"
  by (induction xs) auto

lemma map_of_shift:
  "1 \<le> i \<Longrightarrow>
     map_of (map (\<lambda>c. (fst c - Suc 0, snd c)) (filter (\<lambda>c. fst c \<noteq> Suc 0) u)) i = map_of u (Suc i)"
  by (induction u) auto

lemma upt_groups: "[Suc 0..<5] = [1, 2, 3, 4]" "[Suc 0..<6] = [1, 2, 3, 4, 5]"
  by code_simp+

lemma shifted_groups:
  "map (submatch (map (\<lambda>c. (fst c - Suc 0, snd c)) (filter (\<lambda>c. fst c \<noteq> Suc 0) a))) [Suc 0..<5] =
     [submatch a 2, submatch a 3, submatch a 4, submatch a 5]"
proof -
  have e: "Suc 1 = 2" "Suc 2 = 3" "Suc 3 = 4" "Suc 4 = 5"
    by simp_all
  show ?thesis
    using map_of_shift [of 1 a] map_of_shift [of 2 a] map_of_shift [of 3 a] map_of_shift [of 4 a]
    unfolding e by (simp add: upt_groups submatch_def)
qed

lemma rmatch_versionRE:
  "rmatch versionRE s =
     map (\<lambda>(u, t). (map (\<lambda>c. (fst c - 1, snd c)) (filter (\<lambda>c. fst c \<noteq> 1) u), t)) (rmatch styleRE s)"
  by (simp add: versionRE_styleRE rmatch_regroup rmatch_ungroup comp_def case_prod_unfold)

lemma versionRE_groups:
  "FindStringSubmatch versionRE 4 s =
     (case FindStringSubmatch styleRE 5 s of
        None \<Rightarrow> None
      | Some m \<Rightarrow> Some [s, m ! 2, m ! 3, m ! 4, m ! 5])"
  by (auto simp: FindStringSubmatch_def rmatch_versionRE find_map_snd upt_groups(2) shifted_groups
      split: option.splits)

subsection \<open>What a match of styleRE looks like\<close>

lemma in_splits:
  "t \<in> set (splits k s) \<longleftrightarrow> (\<exists>p. s = p @ t \<and> (\<forall>x \<in> set p. inClass k x))"
proof (induction s)
  case Nil
  then show ?case by auto
next
  case (Cons a s)
  show ?case
  proof (cases "inClass k a")
    case True
    then show ?thesis
      by (auto simp: Cons Cons_eq_append_conv)
  next
    case False
    then show ?thesis
      by (auto simp: Cons_eq_append_conv)
  qed
qed

lemma in_rmatch_One:
  "(u, t) \<in> set (rmatch (One k) s) \<longleftrightarrow> u = [] \<and> (\<exists>x. s = x # t \<and> inClass k x)"
  by (auto split: list.splits)

lemma in_rmatch_Many:
  "(u, t) \<in> set (rmatch (Many k) s) \<longleftrightarrow> u = [] \<and> (\<exists>p. s = p @ t \<and> (\<forall>x \<in> set p. inClass k x))"
  by (auto simp: in_splits)

lemma in_rmatch_Seq:
  "(u, t) \<in> set (rmatch (Seq a b) s) \<longleftrightarrow>
     (\<exists>u1 t1 u2. (u1, t1) \<in> set (rmatch a s) \<and> (u2, t) \<in> set (rmatch b t1) \<and> u = u1 @ u2)"
  by force

lemma in_rmatch_Alt:
  "(u, t) \<in> set (rmatch (Alt a b) s) \<longleftrightarrow> (u, t) \<in> set (rmatch a s) \<or> (u, t) \<in> set (rmatch b s)"
  by simp

lemma in_rmatch_Opt:
  "(u, t) \<in> set (rmatch (Opt a) s) \<longleftrightarrow> (u, t) \<in> set (rmatch a s) \<or> (u = [] \<and> t = s)"
  by auto

lemma rmatch_suffix: "(u, t) \<in> set (rmatch r s) \<Longrightarrow> \<exists>p. s = p @ t"
proof (induction r arbitrary: u t s)
  case (One k)
  then show ?case unfolding in_rmatch_One by auto
next
  case (Many k)
  then show ?case unfolding in_rmatch_Many by auto
next
  case (Seq a b)
  then show ?case
    unfolding in_rmatch_Seq by (metis append.assoc)
next
  case (Alt a b)
  then show ?case unfolding in_rmatch_Alt by auto
next
  case (Opt a)
  then show ?case unfolding in_rmatch_Opt by auto
next
  case (Group i a)
  from Group.prems obtain u' where "(u', t) \<in> set (rmatch a s)" by auto
  then show ?case by (rule Group.IH)
qed

lemma in_rmatch_Group:
  "(u, t) \<in> set (rmatch (Group i a) s) \<longleftrightarrow>
     (\<exists>u' p. (u', t) \<in> set (rmatch a s) \<and> s = p @ t \<and> u = (i, p) # u')"
proof
  assume "(u, t) \<in> set (rmatch (Group i a) s)"
  then obtain u' where u: "(u', t) \<in> set (rmatch a s)" "u = (i, take (length s - length t) s) # u'"
    by auto
  from rmatch_suffix [OF u(1)] obtain p where "s = p @ t" by blast
  with u show "\<exists>u' p. (u', t) \<in> set (rmatch a s) \<and> s = p @ t \<and> u = (i, p) # u'"
    by auto
next
  assume "\<exists>u' p. (u', t) \<in> set (rmatch a s) \<and> s = p @ t \<and> u = (i, p) # u'"
  then show "(u, t) \<in> set (rmatch (Group i a) s)"
    by force
qed

lemma in_rmatch_plus:
  "(u, t) \<in> set (rmatch (plus k) s) \<longleftrightarrow>
     u = [] \<and> (\<exists>p. p \<noteq> [] \<and> s = p @ t \<and> (\<forall>x \<in> set p. inClass k x))"
proof
  assume "(u, t) \<in> set (rmatch (plus k) s)"
  then obtain x p where "u = []" "s = x # p @ t" "inClass k x" "\<forall>y \<in> set p. inClass k y"
    unfolding plus_def in_rmatch_Seq in_rmatch_One in_rmatch_Many by auto
  then have "u = [] \<and> x # p \<noteq> [] \<and> s = (x # p) @ t \<and> (\<forall>y \<in> set (x # p). inClass k y)"
    by simp
  then show "u = [] \<and> (\<exists>p. p \<noteq> [] \<and> s = p @ t \<and> (\<forall>x \<in> set p. inClass k x))"
    by blast
next
  assume "u = [] \<and> (\<exists>p. p \<noteq> [] \<and> s = p @ t \<and> (\<forall>x \<in> set p. inClass k x))"
  then obtain x p where "u = []" "s = x # p @ t" "inClass k x" "\<forall>y \<in> set p. inClass k y"
    by (auto simp: neq_Nil_conv)
  then show "(u, t) \<in> set (rmatch (plus k) s)"
    unfolding plus_def in_rmatch_Seq in_rmatch_One in_rmatch_Many by auto
qed

lemma in_rmatch_lit:
  "(u, t) \<in> set (rmatch (lit c) s) \<longleftrightarrow> u = [] \<and> s = c # t"
  unfolding lit_def in_rmatch_One by auto

lemma in_group_plus:
  "(u, t) \<in> set (rmatch (Group i (plus k)) s) \<longleftrightarrow>
     (\<exists>p. p \<noteq> [] \<and> s = p @ t \<and> (\<forall>x \<in> set p. inClass k x) \<and> u = [(i, p)])"
  unfolding in_rmatch_Group in_rmatch_plus by auto

lemma prefix_part:
  assumes "(u, t) \<in> set (rmatch (Opt (Group 1 (Alt (Seq (Many Word) (lit CHR ''-'')) (lit CHR ''v'')))) s)"
  shows "\<exists>p. s = p @ t \<and> ((u = [] \<and> p = []) \<or> u = [(1, p)])"
  using assms
  unfolding in_rmatch_Opt in_rmatch_Group in_rmatch_Alt in_rmatch_Seq in_rmatch_lit in_rmatch_Many
  by auto

lemma patch_part:
  assumes "(u, t) \<in> set (rmatch (Opt (Seq (lit CHR ''.'') (Group 4 (plus Digit)))) s)"
  shows "(u = [] \<and> t = s) \<or>
         (\<exists>q. q \<noteq> [] \<and> s = CHR ''.'' # q @ t \<and> (\<forall>x \<in> set q. isDigit x) \<and> u = [(4, q)])"
  using assms unfolding in_rmatch_Opt in_rmatch_Seq in_rmatch_lit in_group_plus by auto

lemma flavor_part:
  assumes "(u, t) \<in> set (rmatch (Opt (Group 5 (Seq (lit CHR ''-'') (plus Word)))) s)"
  shows "(u = [] \<and> t = s) \<or> (\<exists>w. w \<noteq> [] \<and> s = CHR ''-'' # w @ t \<and> u = [(5, CHR ''-'' # w)])"
  using assms unfolding in_rmatch_Opt in_rmatch_Group in_rmatch_Seq in_rmatch_lit in_rmatch_plus
  by auto


lemma styleRE_match:
  assumes "(u, []) \<in> set (rmatch styleRE s)"
  shows "\<exists>p d1 d2 q f.
           submatch u 1 = p \<and> submatch u 2 = d1 \<and> submatch u 3 = d2 \<and> submatch u 4 = q \<and>
           submatch u 5 = f \<and>
           s = p @ d1 @ ''.'' @ d2 @ (if q = [] then [] else ''.'' @ q) @ f \<and>
           d1 \<noteq> [] \<and> (\<forall>x \<in> set d1. isDigit x) \<and> d2 \<noteq> [] \<and> (\<forall>x \<in> set d2. isDigit x) \<and>
           (\<forall>x \<in> set q. isDigit x) \<and> (f = [] \<or> (\<exists>w. w \<noteq> [] \<and> f = CHR ''-'' # w))"
proof -
  from assms obtain uP t1 u2 t2 u3 t3 u4 t4 uQ t5 uF where
    P: "(uP, t1) \<in> set (rmatch (Opt (Group 1 (Alt (Seq (Many Word) (lit CHR ''-'')) (lit CHR ''v'')))) s)"
    and G2: "(u2, t2) \<in> set (rmatch (Group 2 (plus Digit)) t1)"
    and D: "(u3, t3) \<in> set (rmatch (lit CHR ''.'') t2)"
    and G3: "(u4, t4) \<in> set (rmatch (Group 3 (plus Digit)) t3)"
    and Q: "(uQ, t5) \<in> set (rmatch (Opt (Seq (lit CHR ''.'') (Group 4 (plus Digit)))) t4)"
    and F: "(uF, []) \<in> set (rmatch (Opt (Group 5 (Seq (lit CHR ''-'') (plus Word)))) t5)"
    and u: "u = uP @ u2 @ u3 @ u4 @ uQ @ uF"
    unfolding styleRE_def in_rmatch_Seq [of _ _ "Opt _"] in_rmatch_Seq [of _ _ "Group _ _"]
      in_rmatch_Seq [of _ _ "lit _"]
    by blast
  from prefix_part [OF P] obtain p where p: "s = p @ t1" and uP: "(uP = [] \<and> p = []) \<or> uP = [(1, p)]"
    by blast
  from G2 obtain d1 where d1: "d1 \<noteq> []" "t1 = d1 @ t2" "\<forall>x \<in> set d1. isDigit x" "u2 = [(2, d1)]"
    unfolding in_group_plus by auto
  from D have d: "u3 = []" "t2 = CHR ''.'' # t3"
    unfolding in_rmatch_lit by auto
  from G3 obtain d2 where d2: "d2 \<noteq> []" "t3 = d2 @ t4" "\<forall>x \<in> set d2. isDigit x" "u4 = [(3, d2)]"
    unfolding in_group_plus by auto
  from patch_part [OF Q] flavor_part [OF F] uP show ?thesis
    by (auto simp: u p d1 d d2 submatch_def)
qed

subsection \<open>Numerals\<close>

lemma isDigit_cases: "isDigit c \<Longrightarrow> c \<in> set ''0123456789''"
proof -
  assume "isDigit c"
  have r: "\<And>n :: int. 48 \<le> n \<Longrightarrow> n \<le> 57 \<Longrightarrow>
      n = 48 \<or> n = 49 \<or> n = 50 \<or> n = 51 \<or> n = 52 \<or> n = 53 \<or> n = 54 \<or> n = 55 \<or> n = 56 \<or> n = 57"
    by arith
  from \<open>isDigit c\<close> have "(of_char c :: int) \<in> {48, 49, 50, 51, 52, 53, 54, 55, 56, 57}"
    unfolding isDigit_def using r [of "of_char c"] by simp
  moreover have inj: "\<And>d. (of_char c :: int) = of_char d \<Longrightarrow> c = d"
    by simp
  ultimately show ?thesis
    using inj [of "CHR ''0''"] inj [of "CHR ''1''"] inj [of "CHR ''2''"] inj [of "CHR ''3''"]
      inj [of "CHR ''4''"] inj [of "CHR ''5''"] inj [of "CHR ''6''"] inj [of "CHR ''7''"]
      inj [of "CHR ''8''"] inj [of "CHR ''9''"]
    by auto
qed

lemma digit_props:
  assumes "isDigit c"
  shows "0 \<le> digitVal c" "digitVal c < 10" "digitChar (nat (digitVal c)) = c"
    "digitVal c = 0 \<longleftrightarrow> c = CHR ''0''"
  using isDigit_cases [OF assms] by (auto simp: digitVal_def digitChar_def)


lemma digitsVal_snoc: "digitsVal (d @ [c]) = 10 * digitsVal d + digitVal c"
  by (simp add: digitsVal_def)

lemma digitsVal_nonneg: "\<forall>x \<in> set d. isDigit x \<Longrightarrow> 0 \<le> digitsVal d"
  by (induction d rule: rev_induct) (auto simp: digitsVal_snoc digit_props digitsVal_def)

lemma digitsVal_pos:
  "\<forall>x \<in> set d. isDigit x \<Longrightarrow> d \<noteq> [] \<Longrightarrow> hd d \<noteq> CHR ''0'' \<Longrightarrow> 0 < digitsVal d"
proof (induction d rule: rev_induct)
  case Nil
  then show ?case by simp
next
  case (snoc c d)
  show ?case
  proof (cases "d = []")
    case True
    with snoc.prems digit_props(1,4) [of c] show ?thesis
      by (simp add: digitsVal_def)
  next
    case False
    with snoc have "0 < digitsVal d" by simp
    moreover have "0 \<le> digitVal c" using snoc.prems by (simp add: digit_props)
    ultimately show ?thesis by (simp add: digitsVal_snoc)
  qed
qed

lemma digits_digitsVal:
  "\<forall>x \<in> set d. isDigit x \<Longrightarrow> canonical d \<Longrightarrow> digits (digitsVal d) = d"
proof (induction d rule: rev_induct)
  case Nil
  then show ?case by (simp add: canonical_def)
next
  case (snoc c d)
  have c: "0 \<le> digitVal c" "digitVal c < 10" "digitChar (nat (digitVal c)) = c"
    using snoc.prems(1) by (simp_all add: digit_props)
  show ?case
  proof (cases "d = []")
    case True
    with c show ?thesis
      by (simp add: digitsVal_def digits.simps)
  next
    case False
    with snoc.prems(2) have h: "hd d \<noteq> CHR ''0''"
      by (auto simp: canonical_def)
    with False have "canonical d" by (simp add: canonical_def)
    with snoc have ih: "digits (digitsVal d) = d" by simp
    have p: "0 < digitsVal d"
      using digitsVal_pos [of d] snoc.prems(1) False h by simp
    with c have "\<not> 10 * digitsVal d + digitVal c < 10"
      "(10 * digitsVal d + digitVal c) div 10 = digitsVal d"
      "(10 * digitsVal d + digitVal c) mod 10 = digitVal c"
      by auto
    then show ?thesis
      by (subst digits.simps) (simp add: digitsVal_snoc ih c)
  qed
qed

lemma Atoi_digits:
  assumes "d \<noteq> []" "\<forall>x \<in> set d. isDigit x" "Atoi d = Inr n"
  shows "n = digitsVal d \<and> 0 \<le> n"
proof -
  have "isDigit (hd d)" using assms(1,2) by (cases d) auto
  then have "hd d \<noteq> CHR ''-''" "hd d \<noteq> CHR ''+''"
    by (auto simp: isDigit_def)
  with assms digitsVal_nonneg [of d] show ?thesis
    by (auto simp: Atoi_def Let_def list_all_iff split: if_splits)
qed

lemma itoa_Atoi:
  assumes "d \<noteq> []" "\<forall>x \<in> set d. isDigit x" "canonical d" "Atoi d = Inr n"
  shows "itoa n = d"
  using Atoi_digits [OF assms(1,2,4)] digits_digitsVal [OF assms(2,3)]
  by (simp add: itoa_def)

subsection \<open>The round trip\<close>

lemma styleRE_groups:
  assumes "FindStringSubmatch styleRE 5 s = Some m"
  shows "\<exists>p d1 d2 q f.
           m = [s, p, d1, d2, q, f] \<and>
           s = p @ d1 @ ''.'' @ d2 @ (if q = [] then [] else ''.'' @ q) @ f \<and>
           d1 \<noteq> [] \<and> (\<forall>x \<in> set d1. isDigit x) \<and> d2 \<noteq> [] \<and> (\<forall>x \<in> set d2. isDigit x) \<and>
           (\<forall>x \<in> set q. isDigit x) \<and> (f = [] \<or> (\<exists>w. w \<noteq> [] \<and> f = CHR ''-'' # w))"
proof -
  from assms obtain u t where f: "find (\<lambda>(u, t). t = []) (rmatch styleRE s) = Some (u, t)"
    and m: "m = s # map (submatch u) [1..<Suc 5]"
    by (auto simp: FindStringSubmatch_def split: option.splits)
  from find_SomeD [OF f] have "(u, []) \<in> set (rmatch styleRE s)" by auto
  from styleRE_match [OF this] m show ?thesis
    by (simp add: upt_groups(2))
qed

lemma Format_Parse:
  assumes c: "canonicalNumbers s" and P: "Parse s = Inr v" and S: "ParseStyle s = Some st"
  shows "Format st v = s"
proof -
  from c obtain m where m: "FindStringSubmatch styleRE 5 s = Some m"
    and cn: "canonical (m ! 2)" "canonical (m ! 3)" "m ! 4 = [] \<or> canonical (m ! 4)"
    by (auto simp: canonicalNumbers_def split: option.splits)
  from styleRE_groups [OF m] obtain p d1 d2 q f where
    g: "m = [s, p, d1, d2, q, f]"
    and s: "s = p @ d1 @ ''.'' @ d2 @ (if q = [] then [] else ''.'' @ q) @ f"
    and d: "d1 \<noteq> []" "\<forall>x \<in> set d1. isDigit x" "d2 \<noteq> []" "\<forall>x \<in> set d2. isDigit x"
      "\<forall>x \<in> set q. isDigit x"
    and fl: "f = [] \<or> (\<exists>w. w \<noteq> [] \<and> f = CHR ''-'' # w)"
    by blast
  from cn g have cn': "canonical d1" "canonical d2" "q = [] \<or> canonical q"
    by simp_all
  have st: "st = \<lparr>Prefix = p, OmitPatch = (q = [])\<rparr>"
    using S m g by (simp add: ParseStyle_def)
  have vm: "FindStringSubmatch versionRE 4 s = Some [s, d1, d2, q, f]"
    using m g by (simp add: versionRE_groups)
  from P vm obtain major minor where
    a: "Atoi d1 = Inr major" "Atoi d2 = Inr minor"
    by (auto simp: Parse_def split: sum.splits)
  have ma: "itoa major = d1" and mi: "itoa minor = d2"
    using itoa_Atoi d cn' a by blast+
  have flv: "Flavor v = (if f = [] then [] else tl f)" and mj: "Major v = major" "Minor v = minor"
    using P vm a by (auto simp: Parse_def Let_def split: sum.splits if_splits)
  show ?thesis
  proof (cases "q = []")
    case True
    then have "Patch v = 0"
      using P vm a by (auto simp: Parse_def Let_def split: sum.splits if_splits)
    with True fl show ?thesis
      by (subst s) (auto simp: Format_def Let_def st ma mi flv mj)
  next
    case False
    then obtain patch where pa: "Atoi q = Inr patch" "Patch v = patch"
      using P vm a by (auto simp: Parse_def Let_def split: sum.splits if_splits)
    have "itoa patch = q"
      using itoa_Atoi [OF False d(5) _ pa(1)] cn'(3) False by simp
    with False fl pa show ?thesis
      by (subst s) (auto simp: Format_def Let_def st ma mi flv mj)
  qed
qed

lemma Parse_out_of_range:
  "ParseStyle ''99999999999999999999.0'' = Some \<lparr>Prefix = [], OmitPatch = True\<rparr> \<and>
   Parse ''99999999999999999999.0'' = Inl (FailedMajor ''99999999999999999999'')"
  by code_simp

text \<open>
  C5. As stated the claim fails: a number written with leading zeros is printed without
  them (and a number that does not fit an \<open>int\<close> is not parsed at all, lemma
  \<open>Parse_out_of_range\<close>). Amended: for every well-formed version string \<open>s\<close> whose major,
  minor and patch numbers are written without superfluous leading zeros and which
  \<open>Parse\<close> accepts, formatting the parsed version under the style inferred from \<open>s\<close>
  reproduces \<open>s\<close> exactly.
\<close>

theorem Format_inverts_Parse:
  assumes "canonicalNumbers s" and "Parse s = Inr v" and "ParseStyle s = Some st"
  shows "Format st v = s"
  using assms by (rule Format_Parse)

theorem Format_inverts_Parse_witness:
  "canonicalNumbers ''v2.3-dev'' \<and>
   Parse ''v2.3-dev'' = Inr \<lparr>Major = 2, Minor = 3, Patch = 0, Flavor = ''dev''\<rparr> \<and>
   ParseStyle ''v2.3-dev'' = Some \<lparr>Prefix = ''v'', OmitPatch = True\<rparr> \<and>
   Format \<lparr>Prefix = ''v'', OmitPatch = True\<rparr> \<lparr>Major = 2, Minor = 3, Patch = 0, Flavor = ''dev''\<rparr> =
     ''v2.3-dev''"
proof -
  have c: "canonicalNumbers ''v2.3-dev''"
    by code_simp
  have p: "Parse ''v2.3-dev'' = Inr \<lparr>Major = 2, Minor = 3, Patch = 0, Flavor = ''dev''\<rparr>"
    by code_simp
  have s: "ParseStyle ''v2.3-dev'' = Some \<lparr>Prefix = ''v'', OmitPatch = True\<rparr>"
    by code_simp
  from Format_inverts_Parse [OF c p s] c p s show ?thesis by simp
qed

theorem Format_leading_zero_counterexample:
  "ParseStyle ''1.02'' = Some \<lparr>Prefix = [], OmitPatch = True\<rparr> \<and>
   Parse ''1.02'' = Inr \<lparr>Major = 1, Minor = 2, Patch = 0, Flavor = []\<rparr> \<and>
   Format \<lparr>Prefix = [], OmitPatch = True\<rparr> \<lparr>Major = 1, Minor = 2, Patch = 0, Flavor = []\<rparr> = ''1.2'' \<and>
   Format \<lparr>Prefix = [], OmitPatch = True\<rparr> \<lparr>Major = 1, Minor = 2, Patch = 0, Flavor = []\<rparr> \<noteq> ''1.02''"
  by code_simp

end
